theory Spec2Isabelle
  imports Complex_Main "HOL-Library.Sublist"
begin

section \<open>AutoIngest: a shallow embedding of \<^verbatim>\<open>auto_ingest.py\<close>\<close>

text \<open>
  The add-on is written against the host's Python API (\<^verbatim>\<open>bpy\<close>). Every function of
  \<^verbatim>\<open>auto_ingest.py\<close> is translated below under its own name; the host data it reads
  and writes (objects, collections, the view layer, preferences, timers) is an explicit
  state, and what only the host can compute (the OBJ importer, the dependency-graph
  evaluation, the file system, IEEE double arithmetic of the progress figure) is a field
  of the record \<open>env\<close>, a parameter of the pipeline and of the operator.
  Floating-point numbers are modelled by \<^typ>\<open>real\<close>: arithmetic is exact.
\<close>

subsection \<open>Python values: exceptions, string formatting, paths\<close>

text \<open>The exceptions the modelled code can raise; all are subclasses of \<^verbatim>\<open>Exception\<close>.\<close>

datatype exn =
    RuntimeError string
  | ReferenceError string
  | IndexError string
  | ZeroDivisionError string
  | TypeError string

text \<open>\<^verbatim>\<open>str(e)\<close>, as the f-string \<^verbatim>\<open>f"{filepath.name}: {e}"\<close> renders an exception.\<close>

fun exn_str :: "exn \<Rightarrow> string" where
  "exn_str (RuntimeError m) = m"
| "exn_str (ReferenceError m) = m"
| "exn_str (IndexError m) = m"
| "exn_str (ZeroDivisionError m) = m"
| "exn_str (TypeError m) = m"

text \<open>Decimal digits of a natural number, \<^verbatim>\<open>str(n)\<close>.\<close>

fun str_nat :: "nat \<Rightarrow> string" where
  "str_nat n =
     (if n < 10 then [''0123456789'' ! n]
      else str_nat (n div 10) @ [''0123456789'' ! (n mod 10)])"

declare str_nat.simps [simp del]

text \<open>\<^verbatim>\<open>str(i)\<close> and \<^verbatim>\<open>f"{i:03d}"\<close> for a Python integer: the sign counts in the width.\<close>

definition str_int :: "int \<Rightarrow> string" where
  "str_int i = (if i < 0 then ''-'' @ str_nat (nat (- i)) else str_nat (nat i))"

definition format_03d :: "int \<Rightarrow> string" where
  "format_03d i =
     (let ds = str_nat (nat \<bar>i\<bar>);
          sign = (if i < 0 then ''-'' else [])
      in sign @ replicate (3 - length sign - length ds) (CHR ''0'') @ ds)"

text \<open>
  A \<^verbatim>\<open>pathlib.Path\<close>, by the three views the add-on takes of it: \<^verbatim>\<open>str(p)\<close>,
  \<^verbatim>\<open>p.name\<close> and \<^verbatim>\<open>p.stem\<close>.
\<close>

record path =
  path_str :: string
  path_name :: string
  path_stem :: string

text \<open>List indexing \<^verbatim>\<open>xs[i]\<close>: a negative index counts from the end, out of range raises.\<close>

definition py_index :: "'a list \<Rightarrow> int \<Rightarrow> exn + 'a" where
  "py_index xs i =
     (if 0 \<le> i \<and> i < int (length xs) then Inr (xs ! nat i)
      else if i < 0 \<and> - int (length xs) \<le> i then Inr (xs ! nat (int (length xs) + i))
      else Inl (IndexError ''list index out of range''))"

subsection \<open>Vectors, matrices and objects\<close>

type_synonym vec3 = "real \<times> real \<times> real"

text \<open>A 4x4 world matrix with last row (0, 0, 0, 1): the rows of its 3x3 part, and its translation.\<close>

type_synonym matrix = "(vec3 \<times> vec3 \<times> vec3) \<times> vec3"

definition vadd :: "vec3 \<Rightarrow> vec3 \<Rightarrow> vec3" where
  "vadd u v = (case u of (a, b, c) \<Rightarrow> case v of (x, y, z) \<Rightarrow> (a + x, b + y, c + z))"

definition vsub :: "vec3 \<Rightarrow> vec3 \<Rightarrow> vec3" where
  "vsub u v = (case u of (a, b, c) \<Rightarrow> case v of (x, y, z) \<Rightarrow> (a - x, b - y, c - z))"

definition vscale :: "vec3 \<Rightarrow> real \<Rightarrow> vec3" where
  "vscale u k = (case u of (a, b, c) \<Rightarrow> (a * k, b * k, c * k))"

definition vdiv :: "vec3 \<Rightarrow> real \<Rightarrow> vec3" where
  "vdiv u k = (case u of (a, b, c) \<Rightarrow> (a / k, b / k, c / k))"

text \<open>\<^verbatim>\<open>v[i]\<close> for \<open>i\<close> in \<^verbatim>\<open>range(3)\<close>.\<close>

definition vidx :: "vec3 \<Rightarrow> nat \<Rightarrow> real" where
  "vidx v i = (case v of (x, y, z) \<Rightarrow> if i = 0 then x else if i = 1 then y else z)"

text \<open>\<^verbatim>\<open>M @ v\<close> for a 4x4 matrix and a 3D vector: the vector is extended by \<open>w = 1\<close>.\<close>

definition mat_vec :: "matrix \<Rightarrow> vec3 \<Rightarrow> vec3" where
  "mat_vec M v =
     (case M of ((r0, r1, r2), t) \<Rightarrow>
        case v of (x, y, z) \<Rightarrow>
          (vidx r0 0 * x + vidx r0 1 * y + vidx r0 2 * z + vidx t 0,
           vidx r1 0 * x + vidx r1 1 * y + vidx r1 2 * z + vidx t 1,
           vidx r2 0 * x + vidx r2 1 * y + vidx r2 2 * z + vidx t 2))"

definition identity_matrix :: matrix where
  "identity_matrix = (((1, 0, 0), (0, 1, 0), (0, 0, 1)), (0, 0, 0))"

text \<open>
  An object of \<^verbatim>\<open>bpy.data.objects\<close>. \<open>obj_data\<close> is the vertex list of its mesh
  (\<open>None\<close>: no data); \<open>matrix_world\<close> and \<open>bound_box\<close> (eight corners, local space) are
  the values the host last evaluated, which the add-on only reads; \<open>obj_rotation\<close> is
  the rotation part of the transform, which the add-on neither reads nor writes.
  A material slot holds the key of a material of \<^verbatim>\<open>bpy.data.materials\<close>, or \<open>None\<close>.
\<close>

record object =
  obj_name :: string
  obj_type :: string
  obj_data :: "vec3 list option"
  obj_location :: vec3
  obj_rotation :: "vec3 \<times> vec3 \<times> vec3"
  obj_scale :: vec3
  obj_parent :: "nat option"
  matrix_parent_inverse :: matrix
  matrix_world :: matrix
  bound_box :: "vec3 list"
  material_slots :: "nat option list"
  empty_display_type :: string

subsection \<open>Materials\<close>

text \<open>
  A shading graph: nodes with named inputs (each with its scalar \<^verbatim>\<open>default_value\<close>) and
  links from an output socket (node index, socket name) to an input socket (node index,
  socket name). A material is its node tree, \<open>None\<close> when it has none.
\<close>

type_synonym socket = "nat \<times> string"

record node =
  node_type :: string
  node_inputs :: "(string \<times> real) list"

record node_tree =
  nt_nodes :: "node list"
  nt_links :: "(socket \<times> socket) list"

text \<open>\<^verbatim>\<open>links.new(from_socket, to_socket)\<close>: an input takes one link, the new one replaces it.\<close>

definition links_new :: "socket \<Rightarrow> socket \<Rightarrow> node_tree \<Rightarrow> node_tree" where
  "links_new from_socket to_socket nt =
     nt\<lparr>nt_links := filter (\<lambda>l. snd l \<noteq> to_socket) (nt_links nt) @ [(from_socket, to_socket)]\<rparr>"

text \<open>The body of the loop over the Principled BSDF nodes, for the node at index \<open>k\<close>.\<close>

definition rewire_principled :: "nat \<Rightarrow> node_tree \<Rightarrow> node_tree" where
  "rewire_principled k nt =
     (let principled = nt_nodes nt ! k;
          inputs = map fst (node_inputs principled);
          base_links = filter (\<lambda>l. snd l = (k, ''Base Color'')) (nt_links nt)
      in if ''Base Color'' \<notin> set inputs \<or> base_links = [] then nt
         else
           let from_socket = fst (hd base_links);
               emission_in =
                 (if ''Emission Color'' \<in> set inputs then Some ''Emission Color''
                  else if ''Emission'' \<in> set inputs then Some ''Emission''
                  else None)
           in case emission_in of
                None \<Rightarrow> nt
              | Some em \<Rightarrow>
                  let nt1 = links_new from_socket (k, em) nt
                  in if ''Emission Strength'' \<in> set inputs
                     then nt1\<lparr>nt_nodes := (nt_nodes nt1)[k := principled\<lparr>node_inputs :=
                            map (\<lambda>(n, d). if n = ''Emission Strength'' then (n, 1) else (n, d))
                              (node_inputs principled)\<rparr>]\<rparr>
                     else nt1)"

definition rewire_material :: "node_tree option \<Rightarrow> node_tree option" where
  "rewire_material mat =
     (case mat of
        None \<Rightarrow> None
      | Some nt \<Rightarrow>
          Some (fold rewire_principled
                  (filter (\<lambda>k. node_type (nt_nodes nt ! k) = ''BSDF_PRINCIPLED'')
                     [0..<length (nt_nodes nt)]) nt))"

subsection \<open>Collections, the view layer and the scene\<close>

text \<open>
  A collection together with its layer collection in the active view layer: name, the
  layer collection's \<^verbatim>\<open>exclude\<close> flag, the objects linked in it, its child collections.
  The scene's root collection is the root of the tree; \<^verbatim>\<open>bpy.data.collections\<close> holds
  every node but the root. The model covers one scene with one view layer, in which
  every collection is linked under exactly one parent.
\<close>

datatype lcol =
  LCol (lc_name: string) (lc_exclude: bool) (lc_objects: "nat list") (lc_children: "lcol list")

record bscene =
  data_objects :: "(nat \<times> object) list"
  data_materials :: "(nat \<times> node_tree option) list"
  layer_collection :: lcol
  next_id :: nat

fun lc_names :: "lcol \<Rightarrow> string list" where
  "lc_names (LCol n e os cs) = n # concat (map lc_names cs)"

text \<open>The keys of \<^verbatim>\<open>bpy.data.collections\<close>.\<close>

definition collection_names :: "bscene \<Rightarrow> string list" where
  "collection_names s = concat (map lc_names (lc_children (layer_collection s)))"

text \<open>\<^verbatim>\<open>bpy.data.collections[name]\<close>, \<open>None\<close> when \<^verbatim>\<open>name not in bpy.data.collections\<close>.\<close>

fun lc_get :: "lcol \<Rightarrow> string \<Rightarrow> lcol option"
  and lc_get_list :: "lcol list \<Rightarrow> string \<Rightarrow> lcol option" where
  "lc_get (LCol n e os cs) name = (if n = name then Some (LCol n e os cs) else lc_get_list cs name)"
| "lc_get_list [] name = None"
| "lc_get_list (c # cs) name =
     (case lc_get c name of Some r \<Rightarrow> Some r | None \<Rightarrow> lc_get_list cs name)"

definition collections_get :: "bscene \<Rightarrow> string \<Rightarrow> lcol option" where
  "collections_get s name = lc_get_list (lc_children (layer_collection s)) name"

definition get_object :: "bscene \<Rightarrow> nat \<Rightarrow> object option" where
  "get_object s i = map_of (data_objects s) i"

text \<open>An attribute assignment on the object with key \<open>i\<close>.\<close>

definition update_object :: "nat \<Rightarrow> (object \<Rightarrow> object) \<Rightarrow> bscene \<Rightarrow> bscene" where
  "update_object i f s =
     s\<lparr>data_objects := map (\<lambda>(j, ob). if j = i then (j, f ob) else (j, ob)) (data_objects s)\<rparr>"

fun lc_unlink_object :: "nat \<Rightarrow> lcol \<Rightarrow> lcol" where
  "lc_unlink_object i (LCol n e os cs) = LCol n e (removeAll i os) (map (lc_unlink_object i) cs)"

text \<open>
  \<^verbatim>\<open>bpy.data.objects.remove(obj, do_unlink=True)\<close>: the object leaves the registry and
  every collection, and no object keeps it as parent.
\<close>

definition data_objects_remove :: "nat \<Rightarrow> bscene \<Rightarrow> bscene" where
  "data_objects_remove i s =
     s\<lparr>data_objects :=
         map (\<lambda>(j, ob). (j, if obj_parent ob = Some i then ob\<lparr>obj_parent := None\<rparr> else ob))
           (filter (\<lambda>(j, ob). j \<noteq> i) (data_objects s)),
       layer_collection := lc_unlink_object i (layer_collection s)\<rparr>"

fun lc_remove :: "string \<Rightarrow> lcol \<Rightarrow> lcol" where
  "lc_remove name (LCol n e os cs) =
     LCol n e os (map (lc_remove name) (filter (\<lambda>c. lc_name c \<noteq> name) cs))"

text \<open>\<^verbatim>\<open>bpy.data.collections.remove(col)\<close>: the collection leaves the registry and its parent.\<close>

definition data_collections_remove :: "string \<Rightarrow> bscene \<Rightarrow> bscene" where
  "data_collections_remove name s = s\<lparr>layer_collection := lc_remove name (layer_collection s)\<rparr>"

text \<open>\<^verbatim>\<open>list(col.objects)\<close>, read from the registry when the loop over it starts.\<close>

definition collection_objects :: "bscene \<Rightarrow> string \<Rightarrow> nat list" where
  "collection_objects s name =
     (case collections_get s name of None \<Rightarrow> [] | Some c \<Rightarrow> lc_objects c)"

subsection \<open>Helpers: geometry and scale\<close>

text \<open>\<^verbatim>\<open>min(xs)\<close> and \<^verbatim>\<open>max(xs)\<close> over a sequence, which here always has eight or three items.\<close>

definition py_min :: "real list \<Rightarrow> real" where
  "py_min xs = fold min (tl xs) (hd xs)"

definition py_max :: "real list \<Rightarrow> real" where
  "py_max xs = fold max (tl xs) (hd xs)"

text \<open>\<^verbatim>\<open>xs.index(v)\<close>: the first position of \<open>v\<close>.\<close>

fun list_index :: "real list \<Rightarrow> real \<Rightarrow> nat" where
  "list_index [] v = 0"
| "list_index (x # xs) v = (if x = v then 0 else Suc (list_index xs v))"

definition get_longest_axis_size :: "object \<Rightarrow> real \<times> nat" where
  "get_longest_axis_size obj =
     (let bbox_world = map (mat_vec (matrix_world obj)) (bound_box obj);
          mins = map (\<lambda>i. py_min (map (\<lambda>v. vidx v i) bbox_world)) [0, 1, 2];
          maxs = map (\<lambda>i. py_max (map (\<lambda>v. vidx v i) bbox_world)) [0, 1, 2];
          dims = map (\<lambda>i. maxs ! i - mins ! i) [0, 1, 2];
          axis = list_index dims (py_max dims)
      in (dims ! axis, axis))"

definition set_origin_to_geometry :: "object \<Rightarrow> object" where
  "set_origin_to_geometry obj =
     (if obj_type obj \<noteq> ''MESH'' then obj
      else case obj_data obj of
        None \<Rightarrow> obj
      | Some vertices \<Rightarrow>
          if vertices = [] then obj
          else
            let bbox_local = bound_box obj;
                center_local = vdiv (fold (\<lambda>c acc. vadd acc c) bbox_local (0, 0, 0)) 8
            in obj\<lparr>obj_data := Some (map (\<lambda>v. vsub v center_local) vertices),
                   obj_location := mat_vec (matrix_world obj) center_local\<rparr>)"

text \<open>The body of the loop of \<^verbatim>\<open>apply_scale_reference\<close> for one object.\<close>

definition apply_scale_reference_obj :: "real \<Rightarrow> bool \<Rightarrow> object \<Rightarrow> object" where
  "apply_scale_reference_obj ref_size apply_scale obj =
     (let obj_size = fst (get_longest_axis_size obj)
      in if obj_size = 0 then obj
         else
           let factor = ref_size / obj_size;
               obj1 = obj\<lparr>obj_scale := vscale (obj_scale obj) factor\<rparr>
           in if apply_scale \<and> obj_type obj1 = ''MESH''
              then case obj_data obj1 of
                     None \<Rightarrow> obj1
                   | Some vertices \<Rightarrow>
                       (case obj_scale obj1 of (sx, sy, sz) \<Rightarrow>
                          obj1\<lparr>obj_data := Some (map (\<lambda>(x, y, z). (x * sx, y * sy, z * sz)) vertices),
                                obj_scale := (1, 1, 1)\<rparr>)
              else obj1)"

text \<open>
  The loop of \<^verbatim>\<open>apply_scale_reference\<close> over the targets, in order. A target is a
  handle; reading \<^verbatim>\<open>obj.matrix_world\<close> through the handle of an object that has been
  removed raises \<^verbatim>\<open>ReferenceError\<close>, and the targets before it stay scaled.
\<close>

fun scale_targets :: "real \<Rightarrow> bool \<Rightarrow> nat list \<Rightarrow> bscene \<Rightarrow> exn option \<times> bscene" where
  "scale_targets ref_size apply_scale [] s = (None, s)"
| "scale_targets ref_size apply_scale (i # objects) s =
     (case get_object s i of
        None \<Rightarrow> (Some (ReferenceError ''StructRNA of type Object has been removed''), s)
      | Some obj \<Rightarrow>
          scale_targets ref_size apply_scale objects
            (update_object i (apply_scale_reference_obj ref_size apply_scale) s))"

text \<open>
  \<open>ref_obj\<close> is the handle kept in the settings; it is read first, and raises in the
  same way when its object has been removed.
\<close>

definition apply_scale_reference :: "nat list \<Rightarrow> nat \<Rightarrow> bool \<Rightarrow> bscene \<Rightarrow> exn option \<times> bscene" where
  "apply_scale_reference objects ref_obj apply_scale s =
     (case get_object s ref_obj of
        None \<Rightarrow> (Some (ReferenceError ''StructRNA of type Object has been removed''), s)
      | Some r \<Rightarrow>
          let ref_size = fst (get_longest_axis_size r)
          in if ref_size = 0 then (None, s)
             else scale_targets ref_size apply_scale objects s)"

subsection \<open>Helpers: materials\<close>

definition apply_diffuse_as_emissive_obj :: "nat \<Rightarrow> bscene \<Rightarrow> bscene" where
  "apply_diffuse_as_emissive_obj i s =
     (case get_object s i of
        None \<Rightarrow> s
      | Some obj \<Rightarrow>
          if obj_type obj \<noteq> ''MESH'' then s
          else fold (\<lambda>slot s'.
                 case slot of
                   None \<Rightarrow> s'
                 | Some m \<Rightarrow>
                     s'\<lparr>data_materials :=
                          map (\<lambda>(j, mat). if j = m then (j, rewire_material mat) else (j, mat))
                            (data_materials s')\<rparr>)
                 (material_slots obj) s)"

definition apply_diffuse_as_emissive :: "nat list \<Rightarrow> bscene \<Rightarrow> bscene" where
  "apply_diffuse_as_emissive objects s = fold apply_diffuse_as_emissive_obj objects s"

subsection \<open>Helpers: collections and visibility\<close>

fun first_free_suffix :: "string list \<Rightarrow> string \<Rightarrow> int list \<Rightarrow> string option" where
  "first_free_suffix names base_name [] = None"
| "first_free_suffix names base_name (i # is) =
     (let candidate = base_name @ ''_'' @ format_03d i
      in if candidate \<notin> set names then Some candidate
         else first_free_suffix names base_name is)"

definition unique_collection_name :: "bscene \<Rightarrow> string \<Rightarrow> exn + string" where
  "unique_collection_name s base_name =
     (if base_name \<notin> set (collection_names s) then Inr base_name
      else case first_free_suffix (collection_names s) base_name [1..999] of
             Some candidate \<Rightarrow> Inr candidate
           | None \<Rightarrow>
               Inl (RuntimeError (''All suffixes exhausted for collection '' @ [CHR 0x27]
                      @ base_name @ [CHR 0x27])))"

text \<open>
  The recursion follows the children as they stand when the call starts; the objects are
  read from the registry once the children are gone.
\<close>

fun delete_collection_recursive :: "lcol \<Rightarrow> bscene \<Rightarrow> bscene" where
  "delete_collection_recursive (LCol n e os cs) s =
     (let s1 = fold delete_collection_recursive cs s;
          s2 = fold data_objects_remove (collection_objects s1 n) s1
      in data_collections_remove n s2)"

fun find_layer_collection :: "lcol \<Rightarrow> string \<Rightarrow> lcol option"
  and find_layer_collection_children :: "lcol list \<Rightarrow> string \<Rightarrow> lcol option" where
  "find_layer_collection (LCol n e os cs) name =
     (if n = name then Some (LCol n e os cs) else find_layer_collection_children cs name)"
| "find_layer_collection_children [] name = None"
| "find_layer_collection_children (child # cs) name =
     (case find_layer_collection child name of
        Some result \<Rightarrow> Some result
      | None \<Rightarrow> find_layer_collection_children cs name)"

text \<open>
  The assignment \<^verbatim>\<open>layer_col.exclude = v\<close> on the node \<^verbatim>\<open>find_layer_collection\<close>
  returns: the same traversal, rebuilding the tree around the first node of that name;
  \<open>None\<close> when there is none.
\<close>

fun assign_exclude :: "string \<Rightarrow> bool \<Rightarrow> lcol \<Rightarrow> lcol option"
  and assign_exclude_children :: "string \<Rightarrow> bool \<Rightarrow> lcol list \<Rightarrow> lcol list option" where
  "assign_exclude name v (LCol n e os cs) =
     (if n = name then Some (LCol n v os cs)
      else case assign_exclude_children name v cs of
             Some cs' \<Rightarrow> Some (LCol n e os cs')
           | None \<Rightarrow> None)"
| "assign_exclude_children name v [] = None"
| "assign_exclude_children name v (child # cs) =
     (case assign_exclude name v child of
        Some child' \<Rightarrow> Some (child' # cs)
      | None \<Rightarrow>
          (case assign_exclude_children name v cs of
             Some cs' \<Rightarrow> Some (child # cs')
           | None \<Rightarrow> None))"

definition set_collection_visibility :: "string \<Rightarrow> bool \<Rightarrow> bscene \<Rightarrow> bscene" where
  "set_collection_visibility col_name visible s =
     (case find_layer_collection (layer_collection s) col_name of
        None \<Rightarrow> s
      | Some layer_col \<Rightarrow>
          (case assign_exclude col_name (\<not> visible) (layer_collection s) of
             None \<Rightarrow> s
           | Some lc \<Rightarrow> s\<lparr>layer_collection := lc\<rparr>))"

text \<open>\<^verbatim>\<open>col.objects.link(obj)\<close> for the collection of that name in the registry.\<close>

fun lc_link_object :: "string \<Rightarrow> nat \<Rightarrow> lcol \<Rightarrow> lcol" where
  "lc_link_object name i (LCol n e os cs) =
     LCol n e (if n = name then os @ [i] else os) (map (lc_link_object name i) cs)"

definition collection_objects_link :: "string \<Rightarrow> nat \<Rightarrow> bscene \<Rightarrow> bscene" where
  "collection_objects_link name i s =
     s\<lparr>layer_collection :=
         (case layer_collection s of LCol n e os cs \<Rightarrow>
            LCol n e os (map (lc_link_object name i) cs))\<rparr>"

text \<open>
  \<^verbatim>\<open>obj.users_collection\<close> lists every collection holding the object, the scene's root
  collection included.
\<close>

definition move_to_collection :: "nat \<Rightarrow> string \<Rightarrow> bscene \<Rightarrow> bscene" where
  "move_to_collection obj col s =
     collection_objects_link col obj
       (s\<lparr>layer_collection := lc_unlink_object obj (layer_collection s)\<rparr>)"

subsection \<open>What the host computes\<close>

text \<open>
  \<open>obj_import\<close> is the operator \<^verbatim>\<open>bpy.ops.wm.obj_import(filepath, up_axis)\<close>: it may
  raise, and it leaves a scene behind. \<open>depsgraph_eval\<close> is what
  \<^verbatim>\<open>view_layer.update()\<close> does to the objects. \<open>isdir\<close> is \<^verbatim>\<open>os.path.isdir\<close>,
  \<open>sorted_rglob_obj\<close> is \<^verbatim>\<open>sorted(Path(root).rglob("*.obj"))\<close>, and
  \<open>float_percent i n\<close> is \<^verbatim>\<open>int(((i + 1) / n) * 100)\<close> in double precision, for \<open>n\<close>
  other than zero.
\<close>

record env =
  obj_import :: "string \<Rightarrow> string \<Rightarrow> bscene \<Rightarrow> exn option \<times> bscene"
  depsgraph_eval :: "(nat \<times> object) list \<Rightarrow> (nat \<times> object) list"
  isdir :: "string \<Rightarrow> bool"
  sorted_rglob_obj :: "string \<Rightarrow> path list"
  float_percent :: "int \<Rightarrow> int \<Rightarrow> int"

definition AXIS_ITEMS :: "(string \<times> string \<times> string) list" where
  "AXIS_ITEMS =
     [(''X'', ''X'', []), (''Y'', ''Y'', []), (''Z'', ''Z'', []),
      (''NEGATIVE_X'', ''-X'', []), (''NEGATIVE_Y'', ''-Y'', []), (''NEGATIVE_Z'', ''-Z'', [])]"

definition collect_obj_files :: "env \<Rightarrow> string \<Rightarrow> path list" where
  "collect_obj_files env root_dir = sorted_rglob_obj env root_dir"

text \<open>
  \<^verbatim>\<open>bpy.data.objects.new(name, None)\<close>: an empty with a fresh key and the default
  transform; the key is returned.
\<close>

definition data_objects_new :: "string \<Rightarrow> bscene \<Rightarrow> nat \<times> bscene" where
  "data_objects_new name s =
     (next_id s,
      s\<lparr>data_objects := data_objects s @
           [(next_id s,
             \<lparr>obj_name = name, obj_type = ''EMPTY'', obj_data = None,
              obj_location = (0, 0, 0),
              obj_rotation = ((1, 0, 0), (0, 1, 0), (0, 0, 1)),
              obj_scale = (1, 1, 1), obj_parent = None,
              matrix_parent_inverse = identity_matrix, matrix_world = identity_matrix,
              bound_box = replicate 8 (0, 0, 0), material_slots = [],
              empty_display_type = ''PLAIN_AXES''\<rparr>)],
        next_id := Suc (next_id s)\<rparr>)"

text \<open>\<^verbatim>\<open>bpy.context.scene.collection.objects.link(obj)\<close>.\<close>

definition scene_collection_objects_link :: "nat \<Rightarrow> bscene \<Rightarrow> bscene" where
  "scene_collection_objects_link i s =
     s\<lparr>layer_collection :=
         (case layer_collection s of LCol n e os cs \<Rightarrow> LCol n e (os @ [i]) cs)\<rparr>"

text \<open>
  \<^verbatim>\<open>col = bpy.data.collections.new(col_name)\<close> followed by
  \<^verbatim>\<open>bpy.context.scene.collection.children.link(col)\<close>: a new collection, empty, last
  among the children of the scene's root collection, its layer collection not excluded.
  The pipeline calls it with a name that no collection of the registry holds.
\<close>

definition collections_new_linked :: "string \<Rightarrow> bscene \<Rightarrow> bscene" where
  "collections_new_linked col_name s =
     s\<lparr>layer_collection :=
         (case layer_collection s of LCol n e os cs \<Rightarrow>
            LCol n e os (cs @ [LCol col_name False [] []]))\<rparr>"

subsection \<open>OBJ import wrapper\<close>

definition import_obj_file :: "env \<Rightarrow> path \<Rightarrow> string \<Rightarrow> bscene \<Rightarrow> (exn + nat list) \<times> bscene" where
  "import_obj_file env filepath up_axis s =
     (let before_keys = set (map fst (data_objects s))
      in case obj_import env (path_str filepath) up_axis s of
           (Some e, s') \<Rightarrow> (Inl e, s')
         | (None, s') \<Rightarrow> (Inr (filter (\<lambda>k. k \<notin> before_keys) (map fst (data_objects s'))), s'))"

subsection \<open>Per-file pipeline\<close>

text \<open>The dictionary \<^verbatim>\<open>cls._settings\<close> built by \<^verbatim>\<open>invoke\<close>, one field per key.\<close>

record settings =
  st_up_axis :: string
  st_center_pivots :: bool
  st_use_scale_ref :: bool
  st_ref_obj :: "nat option"
  st_apply_scale :: bool
  st_replace_existing :: bool
  st_diffuse_as_emissive :: bool

text \<open>
  The first step of \<^verbatim>\<open>process_single_obj\<close>, "Handle name collision": the name the
  new collection will bear, or the exception \<^verbatim>\<open>unique_collection_name\<close> raises, and
  the scene once a collection of that name has been deleted in replace mode.
  \<^verbatim>\<open>stem in bpy.data.collections\<close> holds exactly when the lookup finds a collection.
\<close>

definition handle_name_collision :: "settings \<Rightarrow> string \<Rightarrow> bscene \<Rightarrow> (exn + string) \<times> bscene" where
  "handle_name_collision st stem s0 =
     (case (if st_replace_existing st then collections_get s0 stem else None) of
        Some col \<Rightarrow> (Inr stem, delete_collection_recursive col s0)
      | None \<Rightarrow> (unique_collection_name s0 stem, s0))"

text \<open>
  The stages of \<^verbatim>\<open>process_single_obj\<close> after the import, each under the heading the
  source gives it. "Center pivots" and "Move to world origin":
\<close>

definition place_new_objects :: "settings \<Rightarrow> nat list \<Rightarrow> bscene \<Rightarrow> bscene" where
  "place_new_objects st new_objects s2 =
     (let s3 = (if st_center_pivots st
                then fold (\<lambda>obj. update_object obj set_origin_to_geometry) new_objects s2
                else s2)
      in fold (\<lambda>obj. update_object obj (\<lambda>ob. ob\<lparr>obj_location := (0, 0, 0)\<rparr>)) new_objects s3)"

text \<open>"Scale to reference", which raises when the reference object is gone:\<close>

definition scale_new_objects :: "settings \<Rightarrow> nat list \<Rightarrow> bscene \<Rightarrow> exn option \<times> bscene" where
  "scale_new_objects st new_objects s4 =
     (case (if st_use_scale_ref st then st_ref_obj st else None) of
        Some ref_obj \<Rightarrow> apply_scale_reference new_objects ref_obj (st_apply_scale st) s4
      | None \<Rightarrow> (None, s4))"

text \<open>"Create Empty", "Parent objects to empty" and "Create collection":\<close>

definition group_new_objects :: "string \<Rightarrow> string \<Rightarrow> nat list \<Rightarrow> bscene \<Rightarrow> bscene" where
  "group_new_objects stem col_name new_objects s6 =
     (let (empty, s7) = data_objects_new (''EMPTY_'' @ stem) s6;
          s8 = update_object empty (\<lambda>ob. ob\<lparr>empty_display_type := ''PLAIN_AXES''\<rparr>) s7;
          s9 = scene_collection_objects_link empty s8;
          s10 = fold (\<lambda>obj. update_object obj
                   (\<lambda>ob. ob\<lparr>obj_parent := Some empty,
                             matrix_parent_inverse := identity_matrix\<rparr>))
                  new_objects s9;
          s11 = collections_new_linked col_name s10;
          s12 = move_to_collection empty col_name s11
      in fold (\<lambda>obj. move_to_collection obj col_name) new_objects s12)"

text \<open>
  \<^verbatim>\<open>process_single_obj\<close>. The result is the exception the call raises, if any, with
  the list \<open>created_collections\<close> and the scene as the call leaves them: what was
  mutated before a \<^verbatim>\<open>raise\<close> stays mutated.
\<close>

definition process_single_obj ::
  "env \<Rightarrow> path \<Rightarrow> settings \<Rightarrow> string list \<Rightarrow> bscene \<Rightarrow> exn option \<times> string list \<times> bscene" where
  "process_single_obj env filepath st created_collections s0 =
     (let stem = path_stem filepath;
          (name_result, s1) = handle_name_collision st stem s0
      in case name_result of
           Inl e \<Rightarrow> (Some e, created_collections, s1)
         | Inr col_name \<Rightarrow>
            (case import_obj_file env filepath (st_up_axis st) s1 of
               (Inl e, s2) \<Rightarrow> (Some e, created_collections, s2)
             | (Inr new_objects, s2) \<Rightarrow>
                 if new_objects = [] then (None, created_collections, s2)
                 else
                   let s4 = place_new_objects st new_objects s2;
                       (raised, s5) = scale_new_objects st new_objects s4
                   in case raised of
                        Some e \<Rightarrow> (Some e, created_collections, s5)
                      | None \<Rightarrow>
                          let s6 = (if st_diffuse_as_emissive st
                                    then apply_diffuse_as_emissive new_objects s5 else s5);
                              s13 = group_new_objects stem col_name new_objects s6;
                              s14 = (if created_collections \<noteq> []
                                     then set_collection_visibility (last created_collections) False s13
                                     else s13);
                              s15 = set_collection_visibility col_name True s14
                          in (None, created_collections @ [col_name], s15)))"

subsection \<open>Modal operator\<close>

text \<open>The property group \<^verbatim>\<open>AutoIngestProperties\<close>: the live values of the panel.\<close>

record autoingest_properties =
  folder_path :: string
  up_axis :: string
  center_pivots :: bool
  use_scale_ref :: bool
  reference_object :: "nat option"
  replace_existing :: bool
  apply_scale :: bool
  diffuse_as_emissive :: bool

text \<open>
  Everything the operator reads and writes: the host side (the scene's data, the
  property group \<^verbatim>\<open>scene.autoingest\<close>, the scene properties
  \<^verbatim>\<open>autoingest_progress\<close> and \<^verbatim>\<open>autoingest_running\<close>, the preference
  \<^verbatim>\<open>use_global_undo\<close>, the window manager's timers and modal handler, the reports
  and the console), the instance attribute \<^verbatim>\<open>self._timer\<close>, and the class
  attributes of \<^verbatim>\<open>AUTOINGEST_OT_Import\<close>.
\<close>

record op_state =
  scene :: bscene
  autoingest :: autoingest_properties
  autoingest_progress :: int
  autoingest_running :: bool
  use_global_undo :: bool
  wm_timers :: "nat list"
  modal_handler :: bool
  reports :: "(string \<times> string) list"
  console :: "string list"
  self_timer :: "nat option"
  cls_obj_files :: "path list"
  cls_index :: int
  cls_total :: int
  cls_errors :: "string list"
  cls_settings :: settings
  cls_created_collections :: "string list"
  cls_undo_was_enabled :: bool

datatype retval = CANCELLED | RUNNING_MODAL | PASS_THROUGH | FINISHED

text \<open>\<^verbatim>\<open>self.report({level}, message)\<close>.\<close>

definition report :: "string \<Rightarrow> string \<Rightarrow> op_state \<Rightarrow> op_state" where
  "report level message s = s\<lparr>reports := reports s @ [(level, message)]\<rparr>"

text \<open>
  An assignment to \<^verbatim>\<open>scene.autoingest_progress\<close>, registered as
  \<^verbatim>\<open>IntProperty(default=0, min=0, max=100)\<close>: the host clamps the value to the range.
\<close>

definition set_progress :: "int \<Rightarrow> op_state \<Rightarrow> op_state" where
  "set_progress v s = s\<lparr>autoingest_progress := max 0 (min 100 v)\<rparr>"

text \<open>\<^verbatim>\<open>window_manager.event_timer_add\<close>: a timer with a handle no live timer has.\<close>

definition event_timer_add :: "op_state \<Rightarrow> nat \<times> op_state" where
  "event_timer_add s =
     (let t = Suc (fold max (wm_timers s) 0) in (t, s\<lparr>wm_timers := wm_timers s @ [t]\<rparr>))"

definition invoke :: "env \<Rightarrow> op_state \<Rightarrow> retval \<times> op_state" where
  "invoke env s =
     (let props = autoingest s
      in if folder_path props = [] \<or> \<not> isdir env (folder_path props)
         then (CANCELLED, report ''ERROR'' ''Please select a valid folder.'' s)
         else if use_scale_ref props \<and> reference_object props = None
         then (CANCELLED,
               report ''ERROR''
                 ''Scale to Reference is enabled but no reference object is set.'' s)
         else
           let obj_files = collect_obj_files env (folder_path props)
           in if obj_files = []
              then (CANCELLED,
                    report ''WARNING'' ''No OBJ files found in the selected folder.'' s)
              else
                let s1 = s\<lparr>cls_obj_files := obj_files,
                           cls_index := 0,
                           cls_total := int (length obj_files),
                           cls_errors := [],
                           cls_created_collections := [],
                           cls_settings :=
                             \<lparr>st_up_axis = up_axis props,
                              st_center_pivots = center_pivots props,
                              st_use_scale_ref = use_scale_ref props,
                              st_ref_obj = reference_object props,
                              st_apply_scale = apply_scale props,
                              st_replace_existing = replace_existing props,
                              st_diffuse_as_emissive = diffuse_as_emissive props\<rparr>\<rparr>;
                    s2 = s1\<lparr>cls_undo_was_enabled := use_global_undo s1\<rparr>;
                    s3 = s2\<lparr>use_global_undo := False\<rparr>;
                    (t, s4) = event_timer_add s3;
                    s5 = s4\<lparr>self_timer := Some t\<rparr>;
                    s6 = s5\<lparr>modal_handler := True\<rparr>;
                    s7 = set_progress 0 s6;
                    s8 = s7\<lparr>autoingest_running := True\<rparr>
                in (RUNNING_MODAL, s8))"

text \<open>
  \<^verbatim>\<open>_finish(context, cancelled)\<close>. \<^verbatim>\<open>event_timer_remove\<close> raises \<^verbatim>\<open>TypeError\<close>
  when it is not given a timer. The dash of the summary is U+2013, three bytes in UTF-8.
\<close>

definition finish :: "bool \<Rightarrow> op_state \<Rightarrow> (exn + retval) \<times> op_state" where
  "finish cancelled s =
     (case self_timer s of
        None \<Rightarrow> (Inl (TypeError ''WindowManager.event_timer_remove(): timer is not a Timer''), s)
      | Some t \<Rightarrow>
          let s1 = s\<lparr>wm_timers := removeAll t (wm_timers s)\<rparr>;
              s2 = s1\<lparr>use_global_undo := cls_undo_was_enabled s1\<rparr>;
              s3 = s2\<lparr>autoingest_running := False\<rparr>;
              s4 = set_progress 0 s3
          in if cancelled
             then (Inr FINISHED,
                   report ''WARNING''
                     (''Import cancelled after '' @ str_int (cls_index s4) @ ''/''
                        @ str_int (cls_total s4) @ '' files.'') s4)
             else
               let msg = ''AutoIngest: ''
                           @ str_int (cls_total s4 - int (length (cls_errors s4)))
                           @ '' OBJ(s) imported.'';
                   (msg', s5) =
                     (if cls_errors s4 \<noteq> []
                      then (msg @ ''  '' @ str_int (int (length (cls_errors s4)))
                              @ '' error(s) '' @ [CHR 0xE2, CHR 0x80, CHR 0x93]
                              @ '' see system console.'',
                            s4\<lparr>console := console s4
                                  @ map (\<lambda>e. ''[AutoIngest ERROR] '' @ e) (cls_errors s4)\<rparr>)
                      else (msg, s4))
               in (Inr FINISHED, report ''INFO'' msg' s5))"

text \<open>\<^verbatim>\<open>context.view_layer.update()\<close>.\<close>

definition view_layer_update :: "env \<Rightarrow> bscene \<Rightarrow> bscene" where
  "view_layer_update env s = s\<lparr>data_objects := depsgraph_eval env (data_objects s)\<rparr>"

text \<open>
  \<^verbatim>\<open>modal(context, event)\<close>, the event given by its \<^verbatim>\<open>type\<close>. The result is the
  exception that leaves the handler, or the set it returns. Tagging regions for redraw
  changes nothing of the state.
\<close>

definition modal :: "env \<Rightarrow> string \<Rightarrow> op_state \<Rightarrow> (exn + retval) \<times> op_state" where
  "modal env event_type s =
     (if event_type = ''ESC'' then finish True s
      else if event_type = ''TIMER'' then
        (if cls_index s \<ge> cls_total s then finish False s
         else if cls_total s = 0 then (Inl (ZeroDivisionError ''division by zero''), s)
         else
           let s1 = set_progress (float_percent env (cls_index s) (cls_total s)) s;
               s2 = s1\<lparr>scene := view_layer_update env (scene s1)\<rparr>
           in case py_index (cls_obj_files s2) (cls_index s2) of
                Inl e \<Rightarrow> (Inl e, s2)
              | Inr filepath \<Rightarrow>
                  let (raised, created, sc) =
                        process_single_obj env filepath (cls_settings s2)
                          (cls_created_collections s2) (scene s2);
                      s3 = s2\<lparr>scene := sc, cls_created_collections := created\<rparr>;
                      s4 = (case raised of
                              None \<Rightarrow> s3
                            | Some e \<Rightarrow>
                                s3\<lparr>cls_errors := cls_errors s3
                                      @ [path_name filepath @ '': '' @ exn_str e]\<rparr>);
                      s5 = s4\<lparr>cls_index := cls_index s4 + 1\<rparr>
                  in (Inr PASS_THROUGH, s5))
      else (Inr PASS_THROUGH, s))"

text \<open>
  The host's event loop: it hands the events to \<^verbatim>\<open>modal\<close> one by one, and stops at an
  exception or at a result other than \<^verbatim>\<open>PASS_THROUGH\<close>.
\<close>

fun run_modal :: "env \<Rightarrow> string list \<Rightarrow> op_state \<Rightarrow> (exn + retval) \<times> op_state" where
  "run_modal env [] s = (Inr PASS_THROUGH, s)"
| "run_modal env (ev # evs) s =
     (case modal env ev s of
        (Inr PASS_THROUGH, s') \<Rightarrow> run_modal env evs s'
      | r \<Rightarrow> r)"

subsection \<open>A running job\<close>

text \<open>
  What \<^verbatim>\<open>invoke\<close> establishes and every tick keeps: the total is the number of files,
  the cursor is not negative, and the instance holds its timer.
\<close>

definition job_inv :: "op_state \<Rightarrow> bool" where
  "job_inv s \<longleftrightarrow>
     cls_total s = int (length (cls_obj_files s)) \<and> 0 \<le> cls_index s \<and> self_timer s \<noteq> None"

text \<open>The state of a tick when the pipeline starts: progress shown, view layer updated.\<close>

definition tick_pre :: "env \<Rightarrow> op_state \<Rightarrow> op_state" where
  "tick_pre env s =
     (set_progress (float_percent env (cls_index s) (cls_total s)) s)
       \<lparr>scene := view_layer_update env (scene s)\<rparr>"

text \<open>
  A session in which the user edits the panel's properties between events: an
  \<open>Edit\<close> replaces the live property group, an \<open>Event\<close> goes to \<^verbatim>\<open>modal\<close>.
\<close>

datatype ui_step = Event string | Edit autoingest_properties

fun run_session :: "env \<Rightarrow> ui_step list \<Rightarrow> op_state \<Rightarrow> (exn + retval) \<times> op_state" where
  "run_session env [] s = (Inr PASS_THROUGH, s)"
| "run_session env (Edit p # steps) s = run_session env steps (s\<lparr>autoingest := p\<rparr>)"
| "run_session env (Event ev # steps) s =
     (case modal env ev s of
        (Inr PASS_THROUGH, s') \<Rightarrow> run_session env steps s'
      | r \<Rightarrow> r)"

fun events_of :: "ui_step list \<Rightarrow> string list" where
  "events_of [] = []"
| "events_of (Edit p # steps) = events_of steps"
| "events_of (Event ev # steps) = ev # events_of steps"

subsection \<open>Visibility of collections\<close>

text \<open>
  The layer collections below the root, depth first, each by its collection's name and
  its \<^verbatim>\<open>exclude\<close> flag. A collection is visible when the view layer has a layer
  collection of that name that is not excluded.
\<close>

fun lc_nodes :: "lcol \<Rightarrow> (string \<times> bool) list" where
  "lc_nodes (LCol n e os cs) = (n, e) # concat (map lc_nodes cs)"

definition layer_nodes :: "bscene \<Rightarrow> (string \<times> bool) list" where
  "layer_nodes s = concat (map lc_nodes (lc_children (layer_collection s)))"

definition root_name :: "bscene \<Rightarrow> string" where
  "root_name s = lc_name (layer_collection s)"

definition visible :: "bscene \<Rightarrow> string \<Rightarrow> bool" where
  "visible s name \<longleftrightarrow> (name, False) \<in> set (layer_nodes s)"

text \<open>
  The importer creates objects, not collections: it leaves the layer collections, their
  names and flags, and the root's name as they are.
\<close>

definition import_keeps_layers :: "env \<Rightarrow> bool" where
  "import_keeps_layers env \<longleftrightarrow>
     (\<forall>p a s. layer_nodes (snd (obj_import env p a s)) = layer_nodes s \<and>
              root_name (snd (obj_import env p a s)) = root_name s)"

text \<open>
  The invariant of the job's visibility bookkeeping: the registry's names are unique, and
  of the names the job has created only the last one can be visible.
\<close>

definition vis_inv :: "string list \<Rightarrow> bscene \<Rightarrow> bool" where
  "vis_inv created s \<longleftrightarrow>
     distinct (collection_names s) \<and> (\<forall>n \<in> set created. visible s n \<longrightarrow> n = last created)"

text \<open>
  Writing the flag of the node a search finds: the search and the assignment walk alike,
  and under unique names the assignment changes the flag of every node of that name,
  which is one node at most.
\<close>

definition flag_nodes :: "string \<Rightarrow> bool \<Rightarrow> (string \<times> bool) list \<Rightarrow> (string \<times> bool) list" where
  "flag_nodes name v nodes = map (\<lambda>(n, e). if n = name then (n, v) else (n, e)) nodes"

subsection \<open>The host's evaluation of an object\<close>

text \<open>
  What the host's dependency graph computes for one object, given the world matrix of
  its parent if it has one: \<^verbatim>\<open>matrix_world = parent.matrix_world @
  matrix_parent_inverse @ matrix_basis\<close>, where \<^verbatim>\<open>matrix_basis\<close> is location,
  rotation and scale composed, and \<^verbatim>\<open>bound_box\<close>, the eight corners of the
  axis-aligned box around a mesh's vertices in local space (a mesh without vertices has
  zero extent; the box of an object without mesh data is not recomputed).
\<close>

definition vmul :: "vec3 \<Rightarrow> vec3 \<Rightarrow> vec3" where
  "vmul u v = (case u of (a, b, c) \<Rightarrow> case v of (x, y, z) \<Rightarrow> (a * x, b * y, c * z))"

text \<open>The product of two matrices: the columns and the translation of \<open>N\<close>, mapped by \<open>M\<close>.\<close>

definition mat_mul :: "matrix \<Rightarrow> matrix \<Rightarrow> matrix" where
  "mat_mul M N =
     (case N of ((r0, r1, r2), t) \<Rightarrow>
        let origin = mat_vec M (0, 0, 0);
            c0 = vsub (mat_vec M (vidx r0 0, vidx r1 0, vidx r2 0)) origin;
            c1 = vsub (mat_vec M (vidx r0 1, vidx r1 1, vidx r2 1)) origin;
            c2 = vsub (mat_vec M (vidx r0 2, vidx r1 2, vidx r2 2)) origin
        in (((vidx c0 0, vidx c1 0, vidx c2 0),
             (vidx c0 1, vidx c1 1, vidx c2 1),
             (vidx c0 2, vidx c1 2, vidx c2 2)),
            mat_vec M t))"

definition matrix_basis :: "object \<Rightarrow> matrix" where
  "matrix_basis obj =
     (case obj_rotation obj of (r0, r1, r2) \<Rightarrow>
        (vmul r0 (obj_scale obj), vmul r1 (obj_scale obj), vmul r2 (obj_scale obj)),
      obj_location obj)"

definition world_matrix :: "matrix option \<Rightarrow> object \<Rightarrow> matrix" where
  "world_matrix parent_world obj =
     (case parent_world of
        None \<Rightarrow> matrix_basis obj
      | Some P \<Rightarrow> mat_mul P (mat_mul (matrix_parent_inverse obj) (matrix_basis obj)))"

definition box_corners :: "vec3 list \<Rightarrow> vec3 list" where
  "box_corners vs =
     (if vs = [] then replicate 8 (0, 0, 0)
      else
        let x0 = py_min (map (\<lambda>v. vidx v 0) vs); x1 = py_max (map (\<lambda>v. vidx v 0) vs);
            y0 = py_min (map (\<lambda>v. vidx v 1) vs); y1 = py_max (map (\<lambda>v. vidx v 1) vs);
            z0 = py_min (map (\<lambda>v. vidx v 2) vs); z1 = py_max (map (\<lambda>v. vidx v 2) vs)
        in [(x0, y0, z0), (x0, y0, z1), (x0, y1, z1), (x0, y1, z0),
            (x1, y0, z0), (x1, y0, z1), (x1, y1, z1), (x1, y1, z0)])"

definition depsgraph_object :: "matrix option \<Rightarrow> object \<Rightarrow> object" where
  "depsgraph_object parent_world obj =
     obj\<lparr>matrix_world := world_matrix parent_world obj,
         bound_box := (if obj_type obj = ''MESH''
                       then (case obj_data obj of
                               Some vs \<Rightarrow> box_corners vs
                             | None \<Rightarrow> bound_box obj)
                       else bound_box obj)\<rparr>"

text \<open>
  An object is evaluated when its two cached values are the ones the host computes.
  It is evaluated up to translation when they differ from these by a translation only:
  the state of an object whose location or whose vertices have been shifted since the
  host last evaluated it, as the pipeline leaves it before it scales.
\<close>

definition evaluated :: "matrix option \<Rightarrow> object \<Rightarrow> bool" where
  "evaluated parent_world obj \<longleftrightarrow> depsgraph_object parent_world obj = obj"

definition evaluated_up_to_translation :: "matrix option \<Rightarrow> object \<Rightarrow> bool" where
  "evaluated_up_to_translation parent_world obj \<longleftrightarrow>
     (\<exists>d t. matrix_world obj = (fst (world_matrix parent_world obj), t) \<and>
            bound_box obj =
              map (\<lambda>c. vadd c d) (bound_box (depsgraph_object parent_world obj)))"

text \<open>
  The extents of an object along the three world axes, as \<^verbatim>\<open>get_longest_axis_size\<close>
  measures them, and the centre \<^verbatim>\<open>set_origin_to_geometry\<close> computes.
\<close>

definition axis_spans :: "matrix \<Rightarrow> vec3 list \<Rightarrow> real list" where
  "axis_spans M corners =
     map (\<lambda>i. py_max (map (\<lambda>c. vidx (mat_vec M c) i) corners)
              - py_min (map (\<lambda>c. vidx (mat_vec M c) i) corners)) [0, 1, 2]"

definition world_spans :: "object \<Rightarrow> real list" where
  "world_spans obj = axis_spans (matrix_world obj) (bound_box obj)"

definition bbox_center :: "object \<Rightarrow> vec3" where
  "bbox_center obj = vdiv (fold (\<lambda>c acc. vadd acc c) (bound_box obj) (0, 0, 0)) 8"

text \<open>The part of the world matrix that does not depend on the scale: parent and rotation.\<close>

definition world_frame :: "matrix option \<Rightarrow> object \<Rightarrow> matrix" where
  "world_frame parent_world obj =
     (case parent_world of
        None \<Rightarrow> (obj_rotation obj, obj_location obj)
      | Some P \<Rightarrow>
          mat_mul P (mat_mul (matrix_parent_inverse obj) (obj_rotation obj, obj_location obj)))"

subsection \<open>Example scenes\<close>

text \<open>A scene whose root collection holds one empty collection for each of the names.\<close>

definition scene_of_names :: "string list \<Rightarrow> bscene" where
  "scene_of_names ns =
     \<lparr>data_objects = [], data_materials = [],
      layer_collection = LCol ''Scene Collection'' False [] (map (\<lambda>n. LCol n False [] []) ns),
      next_id = 0\<rparr>"

text \<open>Two files of a folder \<open>/in\<close>.\<close>

definition file_A :: path where
  "file_A = \<lparr>path_str = ''/in/A.obj'', path_name = ''A.obj'', path_stem = ''A''\<rparr>"

definition file_B :: path where
  "file_B = \<lparr>path_str = ''/in/B.obj'', path_name = ''B.obj'', path_stem = ''B''\<rparr>"

text \<open>A mesh object as an importer leaves it: a box from (0, 0, 0) to (2, 4, 8), unparented.\<close>

definition box_object :: "string \<Rightarrow> object" where
  "box_object name =
     \<lparr>obj_name = name, obj_type = ''MESH'',
      obj_data = Some [(0, 0, 0), (2, 0, 0), (0, 4, 0), (2, 4, 0),
                       (0, 0, 8), (2, 0, 8), (0, 4, 8), (2, 4, 8)],
      obj_location = (0, 0, 0),
      obj_rotation = ((1, 0, 0), (0, 1, 0), (0, 0, 1)),
      obj_scale = (1, 1, 1), obj_parent = None,
      matrix_parent_inverse = identity_matrix, matrix_world = identity_matrix,
      bound_box = [(0, 0, 0), (0, 0, 8), (0, 4, 8), (0, 4, 0),
                   (2, 0, 0), (2, 0, 8), (2, 4, 8), (2, 4, 0)],
      material_slots = [], empty_display_type = ''PLAIN_AXES''\<rparr>"

text \<open>
  Three importers: one that raises on every file, one that imports nothing, and one that
  adds one box, named after the file, to the scene's root collection.
\<close>

definition import_raises :: "string \<Rightarrow> string \<Rightarrow> bscene \<Rightarrow> exn option \<times> bscene" where
  "import_raises filepath axis s = (Some (RuntimeError ''Error: cannot read file''), s)"

definition import_nothing :: "string \<Rightarrow> string \<Rightarrow> bscene \<Rightarrow> exn option \<times> bscene" where
  "import_nothing filepath axis s = (None, s)"

definition import_box :: "string \<Rightarrow> string \<Rightarrow> bscene \<Rightarrow> exn option \<times> bscene" where
  "import_box filepath axis s =
     (None,
      scene_collection_objects_link (next_id s)
        (s\<lparr>data_objects := data_objects s @ [(next_id s, box_object filepath)],
           next_id := Suc (next_id s)\<rparr>))"

definition env_of :: "(string \<Rightarrow> string \<Rightarrow> bscene \<Rightarrow> exn option \<times> bscene) \<Rightarrow> path list \<Rightarrow> env" where
  "env_of importer files =
     \<lparr>obj_import = importer, depsgraph_eval = (\<lambda>obs. obs), isdir = (\<lambda>d. d = ''/in''),
      sorted_rglob_obj = (\<lambda>d. files), float_percent = (\<lambda>i n. ((i + 1) * 100) div n)\<rparr>"

text \<open>The host before a job: an empty scene, the panel's defaults, global undo enabled.\<close>

definition default_settings :: settings where
  "default_settings =
     \<lparr>st_up_axis = ''Y'', st_center_pivots = True, st_use_scale_ref = False,
      st_ref_obj = None, st_apply_scale = True, st_replace_existing = False,
      st_diffuse_as_emissive = False\<rparr>"

definition idle_state :: op_state where
  "idle_state =
     \<lparr>scene = scene_of_names [],
      autoingest = \<lparr>folder_path = ''/in'', up_axis = ''Y'', center_pivots = True,
                    use_scale_ref = False, reference_object = None, replace_existing = False,
                    apply_scale = True, diffuse_as_emissive = False\<rparr>,
      autoingest_progress = 0, autoingest_running = False, use_global_undo = True,
      wm_timers = [], modal_handler = False, reports = [], console = [],
      self_timer = None, cls_obj_files = [], cls_index = 0, cls_total = 0, cls_errors = [],
      cls_settings = default_settings, cls_created_collections = [],
      cls_undo_was_enabled = True\<rparr>"

text \<open>
  A scene in which a collection \<open>B\<close> holds one box, and the settings of a job in
  replace mode.
\<close>

definition scene_with_B :: bscene where
  "scene_with_B =
     \<lparr>data_objects = [(0, box_object ''old'')], data_materials = [],
      layer_collection = LCol ''Scene Collection'' False [] [LCol ''B'' False [0] []],
      next_id = 1\<rparr>"

definition replace_settings :: settings where
  "replace_settings = default_settings\<lparr>st_replace_existing := True\<rparr>"




definition scene_ABC :: bscene where
  "scene_ABC =
     \<lparr>data_objects = [], data_materials = [],
      layer_collection =
        LCol ''Scene Collection'' False []
          [LCol ''A'' True [] [], LCol ''B'' True [] [], LCol ''C'' False [] []],
      next_id = 0\<rparr>"



text \<open>
  A scene for scale matching, every object evaluated by the host unless said otherwise:
  a reference box of twice the size (extents 4, 8 and 16); an imported box \<open>A\<close>
  (extents 2, 4 and 8); an empty, which has no extent; a box whose scale has been set to
  2 since the host last evaluated it, so that its cached matrix is out of date; and a box
  that is a child of \<open>A\<close>.
\<close>

definition reference_box :: object where
  "reference_box =
     (box_object ''ref'')\<lparr>obj_scale := (2, 2, 2),
                           matrix_world := (((2, 0, 0), (0, 2, 0), (0, 0, 2)), (0, 0, 0))\<rparr>"

definition flat_object :: object where
  "flat_object =
     \<lparr>obj_name = ''flat'', obj_type = ''EMPTY'', obj_data = None,
      obj_location = (0, 0, 0),
      obj_rotation = ((1, 0, 0), (0, 1, 0), (0, 0, 1)),
      obj_scale = (1, 1, 1), obj_parent = None,
      matrix_parent_inverse = identity_matrix, matrix_world = identity_matrix,
      bound_box = replicate 8 (0, 0, 0), material_slots = [],
      empty_display_type = ''PLAIN_AXES''\<rparr>"

definition stale_box :: object where
  "stale_box = (box_object ''stale'')\<lparr>obj_scale := (2, 2, 2)\<rparr>"

definition child_of_A :: object where
  "child_of_A = (box_object ''child of A'')\<lparr>obj_parent := Some 1\<rparr>"

definition scale_scene :: bscene where
  "scale_scene =
     \<lparr>data_objects = [(0, reference_box), (1, box_object ''A''), (2, flat_object),
                       (3, stale_box), (4, child_of_A)],
      data_materials = [],
      layer_collection = LCol ''Scene Collection'' False [0, 1, 2, 3, 4] [],
      next_id = 5\<rparr>"


definition parent_world :: matrix where
  "parent_world = (((1, 0, 0), (0, 1, 0), (0, 0, 1)), (10, 0, 0))"


section \<open>Properties\<close>

subsection \<open>Collision-free collection names\<close>

lemma first_free_suffix_skip:
  "\<forall>j \<in> set js. base_name @ ''_'' @ format_03d j \<in> set names \<Longrightarrow>
   first_free_suffix names base_name (js @ ks) = first_free_suffix names base_name ks"
  by (induction js) (simp_all add: Let_def)

lemma first_free_suffix_none:
  "\<forall>j \<in> set js. base_name @ ''_'' @ format_03d j \<in> set names \<Longrightarrow>
   first_free_suffix names base_name js = None"
  using first_free_suffix_skip [of js base_name names "[]"] by simp

lemma collection_names_scene_of_names: "collection_names (scene_of_names ns) = ns"
  by (induction ns) (simp_all add: collection_names_def scene_of_names_def)

lemma format_03d_1: "format_03d 1 = ''001''"
  by code_simp

lemma format_03d_2: "format_03d 2 = ''002''"
  by code_simp

text \<open>
  Claim C5. \<^verbatim>\<open>unique_collection_name\<close> returns the base name when no collection holds
  it. When one does, it returns the candidate \<open>base_name_i\<close> (\<open>i\<close> written with three
  digits) for the least \<open>i\<close> from 1 to 999 whose candidate no collection holds. When the
  base name and all 999 candidates are held, it raises \<^verbatim>\<open>RuntimeError\<close>.
\<close>

theorem unique_collection_name_spec:
  "(base_name \<notin> set (collection_names s) \<longrightarrow> unique_collection_name s base_name = Inr base_name) \<and>
   (base_name \<in> set (collection_names s) \<longrightarrow>
      (\<forall>i. 1 \<le> i \<and> i \<le> 999 \<and>
           base_name @ ''_'' @ format_03d i \<notin> set (collection_names s) \<and>
           (\<forall>j. 1 \<le> j \<and> j < i \<longrightarrow> base_name @ ''_'' @ format_03d j \<in> set (collection_names s))
         \<longrightarrow> unique_collection_name s base_name = Inr (base_name @ ''_'' @ format_03d i))) \<and>
   (base_name \<in> set (collection_names s) \<and>
      (\<forall>i. 1 \<le> i \<and> i \<le> 999 \<longrightarrow> base_name @ ''_'' @ format_03d i \<in> set (collection_names s))
      \<longrightarrow> unique_collection_name s base_name =
            Inl (RuntimeError (''All suffixes exhausted for collection '' @ [CHR 0x27]
                   @ base_name @ [CHR 0x27])))"
proof (intro conjI impI allI)
  assume "base_name \<notin> set (collection_names s)"
  then show "unique_collection_name s base_name = Inr base_name"
    by (simp add: unique_collection_name_def)
next
  fix i
  assume taken: "base_name \<in> set (collection_names s)"
    and i: "1 \<le> i \<and> i \<le> 999 \<and>
           base_name @ ''_'' @ format_03d i \<notin> set (collection_names s) \<and>
           (\<forall>j. 1 \<le> j \<and> j < i \<longrightarrow> base_name @ ''_'' @ format_03d j \<in> set (collection_names s))"
  have split: "[1..999] = [1..i - 1] @ i # [i + 1..999]"
    using i upto_split3 [of 1 i 999] by simp
  have "first_free_suffix (collection_names s) base_name [1..999] =
        first_free_suffix (collection_names s) base_name (i # [i + 1..999])"
    unfolding split using i by (intro first_free_suffix_skip) auto
  also have "\<dots> = Some (base_name @ ''_'' @ format_03d i)"
    using i by (simp add: Let_def)
  finally show "unique_collection_name s base_name = Inr (base_name @ ''_'' @ format_03d i)"
    using taken by (simp add: unique_collection_name_def)
next
  assume a: "base_name \<in> set (collection_names s) \<and>
      (\<forall>i. 1 \<le> i \<and> i \<le> 999 \<longrightarrow> base_name @ ''_'' @ format_03d i \<in> set (collection_names s))"
  then have "first_free_suffix (collection_names s) base_name [1..999] = None"
    by (intro first_free_suffix_none) auto
  with a show "unique_collection_name s base_name =
            Inl (RuntimeError (''All suffixes exhausted for collection '' @ [CHR 0x27]
                   @ base_name @ [CHR 0x27]))"
    by (simp add: unique_collection_name_def)
qed

text \<open>
  The three cases at concrete registries: the name is free; \<open>A\<close> and \<open>A_001\<close> are held,
  so \<open>A_002\<close> is returned; \<open>A\<close> and \<open>A_001\<close> to \<open>A_999\<close> are all held.
\<close>

theorem unique_collection_name_witness:
  "unique_collection_name (scene_of_names [''B'']) ''A'' = Inr ''A'' \<and>
   unique_collection_name (scene_of_names [''A'', ''A_001'']) ''A'' = Inr ''A_002'' \<and>
   unique_collection_name (scene_of_names (''A'' # map (\<lambda>i. ''A_'' @ format_03d i) [1..999])) ''A'' =
     Inl (RuntimeError (''All suffixes exhausted for collection '' @ [CHR 0x27] @ ''A'' @ [CHR 0x27]))"
proof (intro conjI)
  show "unique_collection_name (scene_of_names [''B'']) ''A'' = Inr ''A''"
    using unique_collection_name_spec [of "''A''" "scene_of_names [''B'']"]
    by (simp add: collection_names_scene_of_names)
next
  let ?s = "scene_of_names [''A'', ''A_001'']"
  have taken: "''A'' \<in> set (collection_names ?s)"
    by (simp add: collection_names_scene_of_names)
  have low: "\<forall>j::int. 1 \<le> j \<and> j < 2 \<longrightarrow> ''A'' @ ''_'' @ format_03d j \<in> set (collection_names ?s)"
  proof (intro allI impI)
    fix j :: int assume "1 \<le> j \<and> j < 2"
    then have "j = 1" by simp
    then show "''A'' @ ''_'' @ format_03d j \<in> set (collection_names ?s)"
      by (simp add: collection_names_scene_of_names format_03d_1)
  qed
  have free: "''A'' @ ''_'' @ format_03d 2 \<notin> set (collection_names ?s)"
    by (simp add: collection_names_scene_of_names format_03d_2)
  from unique_collection_name_spec [of "''A''" ?s] taken
  have "\<forall>i. 1 \<le> i \<and> i \<le> 999 \<and>
           ''A'' @ ''_'' @ format_03d i \<notin> set (collection_names ?s) \<and>
           (\<forall>j. 1 \<le> j \<and> j < i \<longrightarrow> ''A'' @ ''_'' @ format_03d j \<in> set (collection_names ?s))
         \<longrightarrow> unique_collection_name ?s ''A'' = Inr (''A'' @ ''_'' @ format_03d i)"
    by blast
  from this [rule_format, of 2] low free
  show "unique_collection_name ?s ''A'' = Inr ''A_002''"
    by (simp add: format_03d_2)
next
  show "unique_collection_name (scene_of_names (''A'' # map (\<lambda>i. ''A_'' @ format_03d i) [1..999])) ''A'' =
     Inl (RuntimeError (''All suffixes exhausted for collection '' @ [CHR 0x27] @ ''A'' @ [CHR 0x27]))"
    using unique_collection_name_spec [of "''A''" "scene_of_names (''A'' # map (\<lambda>i. ''A_'' @ format_03d i) [1..999])"]
    by (simp add: collection_names_scene_of_names)
qed

subsection \<open>The operator: ticks, termination and teardown\<close>

lemma py_index_in_range:
  "0 \<le> i \<Longrightarrow> i < int (length xs) \<Longrightarrow> py_index xs i = Inr (xs ! nat i)"
  by (simp add: py_index_def)

lemma modal_timer_tick:
  assumes "job_inv s" and "cls_index s < cls_total s"
  shows "modal env ''TIMER'' s =
     (let filepath = cls_obj_files s ! nat (cls_index s);
          r = process_single_obj env filepath (cls_settings s) (cls_created_collections s)
                (view_layer_update env (scene s))
      in (Inr PASS_THROUGH,
          (tick_pre env s)
            \<lparr>scene := snd (snd r),
             cls_created_collections := fst (snd r),
             cls_errors := (case fst r of None \<Rightarrow> cls_errors s
                            | Some e \<Rightarrow> cls_errors s @ [path_name filepath @ '': '' @ exn_str e]),
             cls_index := cls_index s + 1\<rparr>))"
proof -
  have len: "cls_total s = int (length (cls_obj_files s))" and nonneg: "0 \<le> cls_index s"
    using assms(1) by (simp_all add: job_inv_def)
  have idx: "py_index (cls_obj_files s) (cls_index s) = Inr (cls_obj_files s ! nat (cls_index s))"
    using len nonneg assms(2) by (simp add: py_index_in_range)
  have nz: "cls_total s \<noteq> 0" using nonneg assms(2) by linarith
  show ?thesis
    using assms(2) nz idx
    by (simp add: modal_def tick_pre_def set_progress_def Let_def split: prod.splits option.splits)
qed

lemma modal_timer_tick_fields:
  assumes "job_inv s" and "cls_index s < cls_total s"
  shows "\<exists>s'. modal env ''TIMER'' s = (Inr PASS_THROUGH, s') \<and> job_inv s' \<and>
           cls_index s' = cls_index s + 1 \<and> cls_total s' = cls_total s \<and>
           cls_obj_files s' = cls_obj_files s \<and> self_timer s' = self_timer s \<and>
           cls_undo_was_enabled s' = cls_undo_was_enabled s \<and>
           cls_settings s' = cls_settings s"
  using assms
  by (simp add: modal_timer_tick [OF assms] Let_def job_inv_def tick_pre_def set_progress_def)

lemma finish_result:
  assumes "self_timer s = Some t"
  shows "\<exists>s'. finish c s = (Inr FINISHED, s') \<and> t \<notin> set (wm_timers s') \<and>
           use_global_undo s' = cls_undo_was_enabled s \<and> autoingest_progress s' = 0 \<and>
           \<not> autoingest_running s' \<and> scene s' = scene s"
  using assms
  by (simp add: finish_def Let_def set_progress_def report_def split: prod.splits)

lemma modal_step_cases:
  assumes "job_inv s"
  shows "(\<exists>s'. modal env ev s = (Inr PASS_THROUGH, s') \<and> job_inv s' \<and>
             self_timer s' = self_timer s \<and> cls_undo_was_enabled s' = cls_undo_was_enabled s) \<or>
         (\<exists>c. modal env ev s = finish c s)"
proof (cases "ev = ''ESC''")
  case True
  then show ?thesis by (auto simp: modal_def)
next
  case False
  show ?thesis
  proof (cases "ev = ''TIMER''")
    case timer: True
    show ?thesis
    proof (cases "cls_index s < cls_total s")
      case True
      from modal_timer_tick_fields [OF assms True, of env] timer show ?thesis by auto
    next
      case False
      then show ?thesis using timer by (auto simp: modal_def)
    qed
  next
    case other: False
    then show ?thesis using False assms by (simp add: modal_def)
  qed
qed

lemma run_modal_terminal:
  assumes "job_inv s" and "fst (run_modal env evs s) \<noteq> Inr PASS_THROUGH"
  shows "\<exists>s1 c. job_inv s1 \<and> self_timer s1 = self_timer s \<and>
           cls_undo_was_enabled s1 = cls_undo_was_enabled s \<and> run_modal env evs s = finish c s1"
  using assms
proof (induction evs arbitrary: s)
  case Nil
  then show ?case by simp
next
  case (Cons ev evs)
  from modal_step_cases [OF Cons.prems(1), of env ev]
  show ?case
  proof
    assume "\<exists>s'. modal env ev s = (Inr PASS_THROUGH, s') \<and> job_inv s' \<and>
             self_timer s' = self_timer s \<and> cls_undo_was_enabled s' = cls_undo_was_enabled s"
    then obtain s' where s': "modal env ev s = (Inr PASS_THROUGH, s')" "job_inv s'"
      "self_timer s' = self_timer s" "cls_undo_was_enabled s' = cls_undo_was_enabled s"
      by blast
    then have "run_modal env (ev # evs) s = run_modal env evs s'" by simp
    with Cons.IH [OF s'(2)] Cons.prems(2) s'(3,4) show ?thesis by auto
  next
    assume "\<exists>c. modal env ev s = finish c s"
    then obtain c where c: "modal env ev s = finish c s" by blast
    from Cons.prems(1) obtain t where t: "self_timer s = Some t" by (auto simp: job_inv_def)
    from finish_result [OF t, of c] obtain s' where "finish c s = (Inr FINISHED, s')" by blast
    with c have "run_modal env (ev # evs) s = finish c s" by simp
    with Cons.prems(1) show ?thesis by blast
  qed
qed

lemma invoke_running:
  assumes "fst (invoke env s0) = RUNNING_MODAL"
  shows "job_inv (snd (invoke env s0)) \<and>
         cls_undo_was_enabled (snd (invoke env s0)) = use_global_undo s0 \<and>
         cls_index (snd (invoke env s0)) = 0 \<and>
         cls_total (snd (invoke env s0)) = int (length (cls_obj_files (snd (invoke env s0)))) \<and>
         cls_errors (snd (invoke env s0)) = [] \<and>
         cls_created_collections (snd (invoke env s0)) = [] \<and>
         scene (snd (invoke env s0)) = scene s0 \<and>
         \<not> use_global_undo (snd (invoke env s0)) \<and>
         self_timer (snd (invoke env s0)) = Some (Suc (fold max (wm_timers s0) 0))"
  using assms
  by (auto simp add: invoke_def Let_def job_inv_def event_timer_add_def set_progress_def report_def
      split: if_splits prod.splits)

text \<open>Ticks go through, one file each, while files remain: whatever the pipeline raises.\<close>

lemma run_modal_ticks:
  assumes "job_inv s" and "cls_index s + int k \<le> cls_total s"
  shows "\<exists>s'. run_modal env (replicate k ''TIMER'') s = (Inr PASS_THROUGH, s') \<and> job_inv s' \<and>
           cls_index s' = cls_index s + int k \<and> cls_total s' = cls_total s \<and>
           self_timer s' = self_timer s"
  using assms
proof (induction k arbitrary: s)
  case 0
  then show ?case by simp
next
  case (Suc k)
  have lt: "cls_index s < cls_total s" using Suc.prems(2) by simp
  from modal_timer_tick_fields [OF Suc.prems(1) lt, of env]
  obtain s1 where s1: "modal env ''TIMER'' s = (Inr PASS_THROUGH, s1)" "job_inv s1"
    "cls_index s1 = cls_index s + 1" "cls_total s1 = cls_total s" "self_timer s1 = self_timer s"
    by blast
  have "cls_index s1 + int k \<le> cls_total s1" using s1(3,4) Suc.prems(2) by simp
  from Suc.IH [OF s1(2) this] s1 show ?case by auto
qed

lemma run_modal_append:
  "run_modal env evs s = (Inr PASS_THROUGH, s') \<Longrightarrow>
   run_modal env (evs @ evs') s = run_modal env evs' s'"
proof (induction evs arbitrary: s)
  case Nil
  then show ?case by simp
next
  case (Cons ev evs)
  then show ?case
    by (cases "modal env ev s") (auto split: sum.splits retval.splits)
qed

text \<open>Both terminal paths are reached: a tick past the last file, and ESC at any moment.\<close>

lemma run_modal_reaches_finished:
  assumes "job_inv s" and "cls_index s + int k = cls_total s"
  shows "fst (run_modal env (replicate k ''TIMER'' @ ''TIMER'' # evs) s) = Inr FINISHED"
proof -
  from run_modal_ticks [OF assms(1), of k env] assms(2)
  obtain s' where s': "run_modal env (replicate k ''TIMER'') s = (Inr PASS_THROUGH, s')"
    "job_inv s'" "cls_index s' = cls_index s + int k" "cls_total s' = cls_total s"
    by auto
  from s'(2) obtain t where t: "self_timer s' = Some t" by (auto simp: job_inv_def)
  from finish_result [OF t, of False] obtain s'' where f: "finish False s' = (Inr FINISHED, s'')"
    by blast
  have "modal env ''TIMER'' s' = finish False s'"
    using s'(3,4) assms(2) by (simp add: modal_def)
  with f have "run_modal env (''TIMER'' # evs) s' = (Inr FINISHED, s'')" by simp
  with run_modal_append [OF s'(1), of "''TIMER'' # evs"] show ?thesis by simp
qed

lemma run_modal_reaches_cancelled:
  assumes "job_inv s" and "cls_index s + int k \<le> cls_total s"
  shows "fst (run_modal env (replicate k ''TIMER'' @ ''ESC'' # evs) s) = Inr FINISHED"
proof -
  from run_modal_ticks [OF assms, of env]
  obtain s' where s': "run_modal env (replicate k ''TIMER'') s = (Inr PASS_THROUGH, s')"
    "job_inv s'"
    by auto
  from s'(2) obtain t where t: "self_timer s' = Some t" by (auto simp: job_inv_def)
  from finish_result [OF t, of True] obtain s'' where f: "finish True s' = (Inr FINISHED, s'')"
    by blast
  have "modal env ''ESC'' s' = finish True s'" by (simp add: modal_def)
  with f have "run_modal env (''ESC'' # evs) s' = (Inr FINISHED, s'')" by simp
  with run_modal_append [OF s'(1), of "''ESC'' # evs"] show ?thesis by simp
qed

text \<open>
  Claim C3. In a running job with files left, a tick never lets an exception of the
  per-file pipeline out of \<^verbatim>\<open>modal\<close>: the handler returns \<^verbatim>\<open>PASS_THROUGH\<close>, the
  cursor advances by one, the job stays well-formed, and when the pipeline raised \<open>e\<close>
  the error list grows by exactly the entry \<^verbatim>\<open>"<file name>: <message of e>"\<close> (and
  is unchanged when it raised nothing). Hence any number of ticks up to the number of
  files left passes through, one file per tick, whatever the importer does.
\<close>

theorem per_file_error_containment:
  assumes "job_inv s" and "cls_index s < cls_total s"
  shows "(\<exists>s'. modal env ''TIMER'' s = (Inr PASS_THROUGH, s') \<and> job_inv s' \<and>
            cls_index s' = cls_index s + 1 \<and> cls_total s' = cls_total s \<and>
            cls_obj_files s' = cls_obj_files s \<and>
            cls_errors s' =
              (case fst (process_single_obj env (cls_obj_files s ! nat (cls_index s))
                           (cls_settings s) (cls_created_collections s)
                           (view_layer_update env (scene s))) of
                 None \<Rightarrow> cls_errors s
               | Some e \<Rightarrow>
                   cls_errors s @
                     [path_name (cls_obj_files s ! nat (cls_index s)) @ '': '' @ exn_str e])) \<and>
         (\<forall>k. cls_index s + int k \<le> cls_total s \<longrightarrow>
            (\<exists>s'. run_modal env (replicate k ''TIMER'') s = (Inr PASS_THROUGH, s') \<and>
                  cls_index s' = cls_index s + int k))"
proof (intro conjI allI impI)
  from modal_timer_tick_fields [OF assms, of env]
  obtain s' where s': "modal env ''TIMER'' s = (Inr PASS_THROUGH, s')" "job_inv s'"
    "cls_index s' = cls_index s + 1" "cls_total s' = cls_total s"
    "cls_obj_files s' = cls_obj_files s"
    by blast
  have "cls_errors (snd (modal env ''TIMER'' s)) =
          (case fst (process_single_obj env (cls_obj_files s ! nat (cls_index s))
                       (cls_settings s) (cls_created_collections s)
                       (view_layer_update env (scene s))) of
             None \<Rightarrow> cls_errors s
           | Some e \<Rightarrow>
               cls_errors s @
                 [path_name (cls_obj_files s ! nat (cls_index s)) @ '': '' @ exn_str e])"
    by (simp add: modal_timer_tick [OF assms] Let_def)
  with s' show "\<exists>s'. modal env ''TIMER'' s = (Inr PASS_THROUGH, s') \<and> job_inv s' \<and>
            cls_index s' = cls_index s + 1 \<and> cls_total s' = cls_total s \<and>
            cls_obj_files s' = cls_obj_files s \<and>
            cls_errors s' =
              (case fst (process_single_obj env (cls_obj_files s ! nat (cls_index s))
                           (cls_settings s) (cls_created_collections s)
                           (view_layer_update env (scene s))) of
                 None \<Rightarrow> cls_errors s
               | Some e \<Rightarrow>
                   cls_errors s @
                     [path_name (cls_obj_files s ! nat (cls_index s)) @ '': '' @ exn_str e])"
    by simp
next
  fix k
  assume "cls_index s + int k \<le> cls_total s"
  from run_modal_ticks [OF assms(1) this, of env]
  show "\<exists>s'. run_modal env (replicate k ''TIMER'') s = (Inr PASS_THROUGH, s') \<and>
              cls_index s' = cls_index s + int k"
    by blast
qed

lemma invoke_idle_raises:
  "fst (invoke (env_of import_raises [file_A, file_B]) idle_state) = RUNNING_MODAL"
  by code_simp

lemma files_idle_raises:
  "cls_obj_files (snd (invoke (env_of import_raises [file_A, file_B]) idle_state)) = [file_A, file_B]"
  by code_simp

text \<open>
  A job of two files whose import raises: after the first tick the handler has returned
  \<^verbatim>\<open>PASS_THROUGH\<close>, the cursor is at 1 and the error list holds the entry of \<open>A.obj\<close>.
\<close>

theorem per_file_error_containment_witness:
  "fst (modal (env_of import_raises [file_A, file_B]) ''TIMER''
         (snd (invoke (env_of import_raises [file_A, file_B]) idle_state))) = Inr PASS_THROUGH \<and>
   cls_index (snd (modal (env_of import_raises [file_A, file_B]) ''TIMER''
         (snd (invoke (env_of import_raises [file_A, file_B]) idle_state)))) = 1 \<and>
   cls_errors (snd (modal (env_of import_raises [file_A, file_B]) ''TIMER''
         (snd (invoke (env_of import_raises [file_A, file_B]) idle_state)))) =
     [''A.obj: Error: cannot read file'']"
proof -
  let ?env = "env_of import_raises [file_A, file_B]"
  let ?s = "snd (invoke ?env idle_state)"
  note run = invoke_running [OF invoke_idle_raises]
  have inv: "job_inv ?s" using run by simp
  have lt: "cls_index ?s < cls_total ?s" using run by (simp add: files_idle_raises)
  have raised: "fst (process_single_obj ?env (cls_obj_files ?s ! nat (cls_index ?s))
                  (cls_settings ?s) (cls_created_collections ?s)
                  (view_layer_update ?env (scene ?s))) =
                Some (RuntimeError ''Error: cannot read file'')"
    by code_simp
  have "cls_obj_files ?s ! nat (cls_index ?s) = file_A"
    using run by (simp add: files_idle_raises)
  then have name: "path_name (cls_obj_files ?s ! nat (cls_index ?s)) = ''A.obj''"
    by (simp add: file_A_def)
  from per_file_error_containment [OF inv lt, of ?env] raised name run
  show ?thesis by auto
qed

text \<open>
  Claim C4. Let a job start (\<^verbatim>\<open>invoke\<close> returns \<^verbatim>\<open>RUNNING_MODAL\<close>). Whatever
  events follow and whatever the pipeline raises on any file, if the event loop stops
  then it stops with \<^verbatim>\<open>_finish\<close>: the timer registered at the start is removed, the
  global-undo preference holds the value it had before \<^verbatim>\<open>invoke\<close>, the progress is
  0 and the running flag is cleared. Both terminal paths are reached: a tick after the
  last file (FINISHED path) and ESC after any number of ticks (CANCELLED path).
\<close>

theorem teardown_on_termination:
  assumes "fst (invoke env s0) = RUNNING_MODAL"
  shows "(\<forall>evs. fst (run_modal env evs (snd (invoke env s0))) \<noteq> Inr PASS_THROUGH \<longrightarrow>
            (\<exists>t s'. self_timer (snd (invoke env s0)) = Some t \<and>
               t \<in> set (wm_timers (snd (invoke env s0))) \<and>
               run_modal env evs (snd (invoke env s0)) = (Inr FINISHED, s') \<and>
               t \<notin> set (wm_timers s') \<and>
               use_global_undo s' = use_global_undo s0 \<and>
               autoingest_progress s' = 0 \<and>
               \<not> autoingest_running s')) \<and>
         (\<forall>evs. fst (run_modal env
                   (replicate (length (cls_obj_files (snd (invoke env s0)))) ''TIMER''
                      @ ''TIMER'' # evs) (snd (invoke env s0))) = Inr FINISHED) \<and>
         (\<forall>k evs. k \<le> length (cls_obj_files (snd (invoke env s0))) \<longrightarrow>
            fst (run_modal env (replicate k ''TIMER'' @ ''ESC'' # evs) (snd (invoke env s0)))
              = Inr FINISHED)"
proof (intro conjI allI impI)
  let ?s1 = "snd (invoke env s0)"
  note run = invoke_running [OF assms]
  have inv: "job_inv ?s1" using run by simp
  {
    fix evs
    assume stop: "fst (run_modal env evs ?s1) \<noteq> Inr PASS_THROUGH"
    from run_modal_terminal [OF inv stop]
    obtain s2 c where s2: "job_inv s2" "self_timer s2 = self_timer ?s1"
      "cls_undo_was_enabled s2 = cls_undo_was_enabled ?s1" "run_modal env evs ?s1 = finish c s2"
      by blast
    from run have t: "self_timer ?s1 = Some (Suc (fold max (wm_timers s0) 0))" by simp
    have reg: "Suc (fold max (wm_timers s0) 0) \<in> set (wm_timers ?s1)"
      using assms
      by (auto simp add: invoke_def Let_def event_timer_add_def set_progress_def report_def
          split: if_splits prod.splits)
    from finish_result [of s2 "Suc (fold max (wm_timers s0) 0)" c] s2(2) t
    obtain s' where "finish c s2 = (Inr FINISHED, s')"
      "Suc (fold max (wm_timers s0) 0) \<notin> set (wm_timers s')"
      "use_global_undo s' = cls_undo_was_enabled s2" "autoingest_progress s' = 0"
      "\<not> autoingest_running s'"
      by auto
    with s2 t reg run
    show "\<exists>t s'. self_timer ?s1 = Some t \<and> t \<in> set (wm_timers ?s1) \<and>
               run_modal env evs ?s1 = (Inr FINISHED, s') \<and>
               t \<notin> set (wm_timers s') \<and>
               use_global_undo s' = use_global_undo s0 \<and>
               autoingest_progress s' = 0 \<and>
               \<not> autoingest_running s'"
      by auto
  }
  {
    fix evs
    have "cls_index ?s1 + int (length (cls_obj_files ?s1)) = cls_total ?s1"
      using run by simp
    from run_modal_reaches_finished [OF inv this]
    show "fst (run_modal env (replicate (length (cls_obj_files ?s1)) ''TIMER'' @ ''TIMER'' # evs) ?s1)
            = Inr FINISHED" .
  }
  {
    fix k evs
    assume "k \<le> length (cls_obj_files ?s1)"
    then have "cls_index ?s1 + int k \<le> cls_total ?s1"
      using run by simp
    from run_modal_reaches_cancelled [OF inv this]
    show "fst (run_modal env (replicate k ''TIMER'' @ ''ESC'' # evs) ?s1) = Inr FINISHED" .
  }
qed

text \<open>
  A job of two files whose import raises, started with global undo enabled: after three
  ticks the loop has stopped with two errors recorded, and the teardown has been done.
\<close>

theorem teardown_on_termination_witness:
  "use_global_undo idle_state \<and>
   \<not> use_global_undo (snd (invoke (env_of import_raises [file_A, file_B]) idle_state)) \<and>
   fst (run_modal (env_of import_raises [file_A, file_B]) [''TIMER'', ''TIMER'', ''TIMER'']
          (snd (invoke (env_of import_raises [file_A, file_B]) idle_state))) = Inr FINISHED \<and>
   length (cls_errors (snd (run_modal (env_of import_raises [file_A, file_B])
          [''TIMER'', ''TIMER'', ''TIMER'']
          (snd (invoke (env_of import_raises [file_A, file_B]) idle_state))))) = 2 \<and>
   wm_timers (snd (run_modal (env_of import_raises [file_A, file_B])
          [''TIMER'', ''TIMER'', ''TIMER'']
          (snd (invoke (env_of import_raises [file_A, file_B]) idle_state)))) = [] \<and>
   use_global_undo (snd (run_modal (env_of import_raises [file_A, file_B])
          [''TIMER'', ''TIMER'', ''TIMER'']
          (snd (invoke (env_of import_raises [file_A, file_B]) idle_state)))) \<and>
   autoingest_progress (snd (run_modal (env_of import_raises [file_A, file_B])
          [''TIMER'', ''TIMER'', ''TIMER'']
          (snd (invoke (env_of import_raises [file_A, file_B]) idle_state)))) = 0 \<and>
   \<not> autoingest_running (snd (run_modal (env_of import_raises [file_A, file_B])
          [''TIMER'', ''TIMER'', ''TIMER'']
          (snd (invoke (env_of import_raises [file_A, file_B]) idle_state))))"
proof -
  let ?env = "env_of import_raises [file_A, file_B]"
  let ?s1 = "snd (invoke ?env idle_state)"
  let ?evs = "[''TIMER'', ''TIMER'', ''TIMER'']"
  have undo0: "use_global_undo idle_state" by (simp add: idle_state_def)
  have stops: "fst (run_modal ?env ?evs ?s1) = Inr FINISHED" by code_simp
  have errs: "length (cls_errors (snd (run_modal ?env ?evs ?s1))) = 2" by code_simp
  have timers: "wm_timers (snd (run_modal ?env ?evs ?s1)) = []" by code_simp
  from teardown_on_termination [OF invoke_idle_raises] stops
  obtain t s' where "run_modal ?env ?evs ?s1 = (Inr FINISHED, s')"
    "use_global_undo s' = use_global_undo idle_state" "autoingest_progress s' = 0"
    "\<not> autoingest_running s'"
    by (metis sum.inject retval.distinct(11))
  with undo0 stops errs timers invoke_running [OF invoke_idle_raises] show ?thesis by simp
qed

text \<open>
  Claim C9. ESC in a job that holds its timer \<open>t\<close> ends it with \<^verbatim>\<open>_finish\<close>, and the
  state it leaves is the state it found but for five things: the timer \<open>t\<close> is removed,
  the global-undo preference takes the snapshot's value, the running flag is cleared,
  the progress is 0, and one warning is reported. In particular the scene (every
  collection, empty and object, and what replace mode deleted) is the one it found,
  and so are the job's own fields.
\<close>

theorem cancel_no_rollback:
  assumes "self_timer s = Some t"
  shows "modal env ''ESC'' s =
           (Inr FINISHED,
            s\<lparr>wm_timers := removeAll t (wm_timers s),
              use_global_undo := cls_undo_was_enabled s,
              autoingest_running := False,
              autoingest_progress := 0,
              reports := reports s @
                [(''WARNING'', ''Import cancelled after '' @ str_int (cls_index s) @ ''/''
                     @ str_int (cls_total s) @ '' files.'')]\<rparr>) \<and>
         scene (snd (modal env ''ESC'' s)) = scene s"
  using assms
  by (simp add: modal_def finish_def Let_def set_progress_def report_def)

text \<open>
  A job of two boxes cancelled after its first tick: the collection \<open>A\<close> made by that tick,
  its empty and its box are still in the scene after ESC.
\<close>

theorem cancel_no_rollback_witness:
  "collection_names (scene (snd (run_modal (env_of import_box [file_A, file_B]) [''TIMER'']
       (snd (invoke (env_of import_box [file_A, file_B]) idle_state))))) = [''A''] \<and>
   scene (snd (modal (env_of import_box [file_A, file_B]) ''ESC''
     (snd (run_modal (env_of import_box [file_A, file_B]) [''TIMER'']
       (snd (invoke (env_of import_box [file_A, file_B]) idle_state)))))) =
   scene (snd (run_modal (env_of import_box [file_A, file_B]) [''TIMER'']
       (snd (invoke (env_of import_box [file_A, file_B]) idle_state)))) \<and>
   fst (modal (env_of import_box [file_A, file_B]) ''ESC''
     (snd (run_modal (env_of import_box [file_A, file_B]) [''TIMER'']
       (snd (invoke (env_of import_box [file_A, file_B]) idle_state))))) = Inr FINISHED"
proof -
  let ?env = "env_of import_box [file_A, file_B]"
  let ?s = "snd (run_modal ?env [''TIMER''] (snd (invoke ?env idle_state)))"
  have timer: "self_timer ?s = Some 1" by code_simp
  have names: "collection_names (scene ?s) = [''A'']" by code_simp
  from cancel_no_rollback [OF timer, of ?env] names show ?thesis by simp
qed

subsection \<open>Files that import nothing\<close>

lemma process_single_obj_no_new_objects:
  assumes "handle_name_collision st (path_stem filepath) s0 = (Inr col_name, s1)"
    and "import_obj_file env filepath (st_up_axis st) s1 = (Inr [], s2)"
  shows "process_single_obj env filepath st created s0 = (None, created, s2)"
  using assms by (simp add: process_single_obj_def Let_def)

text \<open>
  Claim C10. When the cursor has passed the last file, the tick ends the job and reports
  one INFO line whose figure is the total minus the length of the error list. A tick on a
  file whose import brings no new object adds no error and no collection, and advances
  the cursor: that file is counted in the figure although it created nothing.
\<close>

theorem finished_summary_count:
  "(\<forall>t. self_timer s = Some t \<and> cls_total s \<le> cls_index s \<longrightarrow>
      (\<exists>s'. modal env ''TIMER'' s = (Inr FINISHED, s') \<and>
         reports s' = reports s @
           [(''INFO'',
             ''AutoIngest: '' @ str_int (cls_total s - int (length (cls_errors s)))
               @ '' OBJ(s) imported.''
               @ (if cls_errors s = [] then []
                  else ''  '' @ str_int (int (length (cls_errors s))) @ '' error(s) ''
                         @ [CHR 0xE2, CHR 0x80, CHR 0x93] @ '' see system console.''))])) \<and>
   (job_inv s \<and> cls_index s < cls_total s \<and>
      (\<exists>col_name s1 s2.
          handle_name_collision (cls_settings s)
            (path_stem (cls_obj_files s ! nat (cls_index s)))
            (view_layer_update env (scene s)) = (Inr col_name, s1) \<and>
          import_obj_file env (cls_obj_files s ! nat (cls_index s))
            (st_up_axis (cls_settings s)) s1 = (Inr [], s2)) \<longrightarrow>
      (\<exists>s'. modal env ''TIMER'' s = (Inr PASS_THROUGH, s') \<and>
         cls_errors s' = cls_errors s \<and>
         cls_created_collections s' = cls_created_collections s \<and>
         cls_index s' = cls_index s + 1 \<and> cls_total s' = cls_total s))"
proof (intro conjI allI impI)
  fix t
  assume "self_timer s = Some t \<and> cls_total s \<le> cls_index s"
  then show "\<exists>s'. modal env ''TIMER'' s = (Inr FINISHED, s') \<and>
         reports s' = reports s @
           [(''INFO'',
             ''AutoIngest: '' @ str_int (cls_total s - int (length (cls_errors s)))
               @ '' OBJ(s) imported.''
               @ (if cls_errors s = [] then []
                  else ''  '' @ str_int (int (length (cls_errors s))) @ '' error(s) ''
                         @ [CHR 0xE2, CHR 0x80, CHR 0x93] @ '' see system console.''))]"
    by (simp add: modal_def finish_def Let_def set_progress_def report_def)
next
  assume a: "job_inv s \<and> cls_index s < cls_total s \<and>
      (\<exists>col_name s1 s2.
          handle_name_collision (cls_settings s)
            (path_stem (cls_obj_files s ! nat (cls_index s)))
            (view_layer_update env (scene s)) = (Inr col_name, s1) \<and>
          import_obj_file env (cls_obj_files s ! nat (cls_index s))
            (st_up_axis (cls_settings s)) s1 = (Inr [], s2))"
  then obtain col_name s1 s2 where
    h: "handle_name_collision (cls_settings s)
            (path_stem (cls_obj_files s ! nat (cls_index s)))
            (view_layer_update env (scene s)) = (Inr col_name, s1)"
    and i: "import_obj_file env (cls_obj_files s ! nat (cls_index s))
            (st_up_axis (cls_settings s)) s1 = (Inr [], s2)"
    by blast
  from a have inv: "job_inv s" and lt: "cls_index s < cls_total s" by simp_all
  show "\<exists>s'. modal env ''TIMER'' s = (Inr PASS_THROUGH, s') \<and>
         cls_errors s' = cls_errors s \<and>
         cls_created_collections s' = cls_created_collections s \<and>
         cls_index s' = cls_index s + 1 \<and> cls_total s' = cls_total s"
    by (simp add: modal_timer_tick [OF inv lt] Let_def tick_pre_def set_progress_def
        process_single_obj_no_new_objects [OF h i])
qed

lemma modal_timer_finished_frame:
  assumes "self_timer s = Some t" and "cls_total s \<le> cls_index s"
  shows "cls_created_collections (snd (modal env ''TIMER'' s)) = cls_created_collections s \<and>
         scene (snd (modal env ''TIMER'' s)) = scene s"
  using assms
  by (simp add: modal_def finish_def Let_def set_progress_def report_def)

lemma str_int_2: "str_int 2 = ''2''"
  by code_simp

text \<open>
  A job of two files that import nothing: no collection is created, no error is recorded,
  and the summary reports two imported files.
\<close>

theorem finished_summary_count_witness:
  "reports (snd (run_modal (env_of import_nothing [file_A, file_B]) [''TIMER'', ''TIMER'', ''TIMER'']
      (snd (invoke (env_of import_nothing [file_A, file_B]) idle_state)))) =
     [(''INFO'', ''AutoIngest: 2 OBJ(s) imported.'')] \<and>
   cls_created_collections (snd (run_modal (env_of import_nothing [file_A, file_B])
      [''TIMER'', ''TIMER'', ''TIMER'']
      (snd (invoke (env_of import_nothing [file_A, file_B]) idle_state)))) = [] \<and>
   collection_names (scene (snd (run_modal (env_of import_nothing [file_A, file_B])
      [''TIMER'', ''TIMER'', ''TIMER'']
      (snd (invoke (env_of import_nothing [file_A, file_B]) idle_state))))) = []"
proof -
  define env where "env = env_of import_nothing [file_A, file_B]"
  define s1 where "s1 = snd (invoke env idle_state)"
  define s2 where "s2 = snd (run_modal env [''TIMER'', ''TIMER''] s1)"
  have "fst (run_modal env [''TIMER'', ''TIMER''] s1) = Inr PASS_THROUGH"
    unfolding s1_def env_def by code_simp
  then have two: "run_modal env [''TIMER'', ''TIMER''] s1 = (Inr PASS_THROUGH, s2)"
    unfolding s2_def by (simp add: prod_eq_iff)
  have timer: "self_timer s2 = Some 1" unfolding s2_def s1_def env_def by code_simp
  have total: "cls_total s2 = 2" unfolding s2_def s1_def env_def by code_simp
  have idx: "cls_index s2 = 2" unfolding s2_def s1_def env_def by code_simp
  have errs: "cls_errors s2 = []" unfolding s2_def s1_def env_def by code_simp
  have reps: "reports s2 = []" unfolding s2_def s1_def env_def by code_simp
  have created: "cls_created_collections s2 = []" unfolding s2_def s1_def env_def by code_simp
  have names: "collection_names (scene s2) = []" unfolding s2_def s1_def env_def by code_simp
  have past: "self_timer s2 = Some 1 \<and> cls_total s2 \<le> cls_index s2"
    using timer total idx by simp
  from finished_summary_count [of s2 env, THEN conjunct1, rule_format, OF past]
  obtain s' where fin: "modal env ''TIMER'' s2 = (Inr FINISHED, s')"
    and rep: "reports s' = reports s2 @
           [(''INFO'',
             ''AutoIngest: '' @ str_int (cls_total s2 - int (length (cls_errors s2)))
               @ '' OBJ(s) imported.''
               @ (if cls_errors s2 = [] then []
                  else ''  '' @ str_int (int (length (cls_errors s2))) @ '' error(s) ''
                         @ [CHR 0xE2, CHR 0x80, CHR 0x93] @ '' see system console.''))]"
    by blast
  have frame: "cls_created_collections s' = [] \<and> collection_names (scene s') = []"
    using modal_timer_finished_frame [of s2 1 env] timer total idx fin created names by simp
  have rep': "reports s' = [(''INFO'', ''AutoIngest: 2 OBJ(s) imported.'')]"
    using rep total errs reps by (simp add: str_int_2)
  have "run_modal env [''TIMER'', ''TIMER'', ''TIMER''] s1 = run_modal env [''TIMER''] s2"
    using run_modal_append [OF two, of "[''TIMER'']"] by simp
  also have "\<dots> = (Inr FINISHED, s')"
    using fin by simp
  finally have "reports (snd (run_modal env [''TIMER'', ''TIMER'', ''TIMER''] s1)) =
       [(''INFO'', ''AutoIngest: 2 OBJ(s) imported.'')] \<and>
     cls_created_collections (snd (run_modal env [''TIMER'', ''TIMER'', ''TIMER''] s1)) = [] \<and>
     collection_names (scene (snd (run_modal env [''TIMER'', ''TIMER'', ''TIMER''] s1))) = []"
    using frame rep' by simp
  then show ?thesis unfolding s1_def env_def .
qed

subsection \<open>The settings snapshot\<close>

text \<open>The handler neither reads nor writes the live property group.\<close>

lemma finish_ignores_properties:
  "finish c (s\<lparr>autoingest := p\<rparr>) = (fst (finish c s), (snd (finish c s))\<lparr>autoingest := p\<rparr>)"
  by (simp add: finish_def Let_def set_progress_def report_def split: option.splits)

lemma modal_ignores_properties:
  "modal env ev (s\<lparr>autoingest := p\<rparr>) =
     (fst (modal env ev s), (snd (modal env ev s))\<lparr>autoingest := p\<rparr>)"
  by (simp add: modal_def finish_ignores_properties Let_def set_progress_def
      split: prod.splits sum.splits option.splits)

lemma run_session_up_to_properties:
  assumes "s1\<lparr>autoingest := p\<rparr> = s2\<lparr>autoingest := p\<rparr>"
  shows "fst (run_session env steps s1) = fst (run_modal env (events_of steps) s2) \<and>
         (snd (run_session env steps s1))\<lparr>autoingest := p\<rparr> =
         (snd (run_modal env (events_of steps) s2))\<lparr>autoingest := p\<rparr>"
  using assms
proof (induction steps arbitrary: s1 s2)
  case Nil
  then show ?case by simp
next
  case (Cons step steps)
  show ?case
  proof (cases step)
    case (Edit q)
    have "(s1\<lparr>autoingest := q\<rparr>)\<lparr>autoingest := p\<rparr> = s2\<lparr>autoingest := p\<rparr>"
      using Cons.prems by simp
    from Cons.IH [OF this] Edit show ?thesis by simp
  next
    case (Event ev)
    have s1: "s1 = s2\<lparr>autoingest := autoingest s1\<rparr>"
      using Cons.prems by (metis op_state.surjective op_state.update_convs(2))
    obtain r t2 where m2: "modal env ev s2 = (r, t2)" by (cases "modal env ev s2")
    have m1: "modal env ev s1 = (r, t2\<lparr>autoingest := autoingest s1\<rparr>)"
      using modal_ignores_properties [where env = env and ev = ev and s = s2 and p = "autoingest s1"] m2 s1 by simp
    show ?thesis
    proof (cases "r = Inr PASS_THROUGH")
      case True
      have "(t2\<lparr>autoingest := autoingest s1\<rparr>)\<lparr>autoingest := p\<rparr> = t2\<lparr>autoingest := p\<rparr>"
        by simp
      from Cons.IH [OF this] True m1 m2 Event show ?thesis by simp
    next
      case False
      then show ?thesis using m1 m2 Event
        by (cases r) (auto split: retval.splits)
    qed
  qed
qed

text \<open>
  Claim C8. Take any session of events in which the user edits the panel's properties
  at arbitrary moments, and the same session without the edits. Both end with the same
  result, and with the same state but for the live property group itself: the same
  scene, created collections, errors, cursor, reports. The pipeline is given the
  snapshot \<^verbatim>\<open>cls._settings\<close> alone.
\<close>

theorem settings_snapshot_noninterference:
  "fst (run_session env steps s) = fst (run_modal env (events_of steps) s) \<and>
   (snd (run_session env steps s))\<lparr>autoingest := p\<rparr> =
   (snd (run_modal env (events_of steps) s))\<lparr>autoingest := p\<rparr>"
  by (rule run_session_up_to_properties) simp

text \<open>
  A job of two boxes in which the user switches replace mode on and the up axis to Z
  between the two ticks: the scene is the one of the job without the edit.
\<close>

theorem settings_snapshot_noninterference_witness:
  "scene (snd (run_session (env_of import_box [file_A, file_B])
       [Event ''TIMER'',
        Edit ((autoingest idle_state)\<lparr>replace_existing := True, up_axis := ''Z''\<rparr>),
        Event ''TIMER'']
       (snd (invoke (env_of import_box [file_A, file_B]) idle_state)))) =
   scene (snd (run_modal (env_of import_box [file_A, file_B]) [''TIMER'', ''TIMER'']
       (snd (invoke (env_of import_box [file_A, file_B]) idle_state))))"
proof -
  define env where "env = env_of import_box [file_A, file_B]"
  define s1 where "s1 = snd (invoke env idle_state)"
  define steps where "steps = [Event ''TIMER'',
        Edit ((autoingest idle_state)\<lparr>replace_existing := True, up_axis := ''Z''\<rparr>),
        Event ''TIMER'']"
  have ev: "events_of steps = [''TIMER'', ''TIMER'']" by (simp add: steps_def)
  from settings_snapshot_noninterference
         [where env = env and steps = steps and s = s1 and p = "autoingest idle_state"]
  have "scene ((snd (run_session env steps s1))\<lparr>autoingest := autoingest idle_state\<rparr>) =
        scene ((snd (run_modal env (events_of steps) s1))\<lparr>autoingest := autoingest idle_state\<rparr>)"
    by simp
  then have "scene (snd (run_session env steps s1)) =
             scene (snd (run_modal env [''TIMER'', ''TIMER''] s1))"
    by (simp add: ev)
  then show ?thesis unfolding steps_def s1_def env_def .
qed

lemma lc_get_names:
  "lc_get c name = None \<longleftrightarrow> name \<notin> set (lc_names c)"
  "lc_get_list cs name = None \<longleftrightarrow> name \<notin> set (concat (map lc_names cs))"
  by (induction c name and cs name rule: lc_get_lc_get_list.induct)
     (auto split: option.splits)

lemma collections_get_None: "collections_get s name = None \<longleftrightarrow> name \<notin> set (collection_names s)"
  by (simp add: collections_get_def collection_names_def lc_get_names)

lemma handle_name_collision_cases:
  "(\<not> st_replace_existing st \<or> stem \<notin> set (collection_names s0) \<longrightarrow>
      handle_name_collision st stem s0 = (unique_collection_name s0 stem, s0)) \<and>
   (st_replace_existing st \<and> stem \<in> set (collection_names s0) \<longrightarrow>
      (\<exists>col. collections_get s0 stem = Some col \<and>
         handle_name_collision st stem s0 = (Inr stem, delete_collection_recursive col s0)))"
  using collections_get_None [of s0 stem]
  by (auto simp: handle_name_collision_def split: option.splits)

text \<open>
  Claim C7, as the code has it. When the import of a file brings no new object, the
  pipeline stops right after the import: it raises nothing, appends nothing to the list
  of created collections, and leaves the scene exactly as the import left it (no
  collection, no empty, no change to any object after the import). What the run did
  before the import stays done: nothing when replace mode is off or no collection bears
  the file's stem, and in replace mode the recursive deletion of the collection that
  bears it.
\<close>

theorem empty_import_aborts:
  assumes "handle_name_collision st (path_stem filepath) s0 = (Inr col_name, s1)"
    and "import_obj_file env filepath (st_up_axis st) s1 = (Inr [], s2)"
  shows "process_single_obj env filepath st created s0 = (None, created, s2) \<and>
         (\<not> st_replace_existing st \<or> path_stem filepath \<notin> set (collection_names s0)
            \<longrightarrow> s1 = s0) \<and>
         (st_replace_existing st \<and> path_stem filepath \<in> set (collection_names s0)
            \<longrightarrow> (\<exists>col. collections_get s0 (path_stem filepath) = Some col \<and>
                      s1 = delete_collection_recursive col s0))"
  using assms handle_name_collision_cases [of st "path_stem filepath" s0]
  by (auto simp: process_single_obj_no_new_objects)

text \<open>
  Replace mode off, a file that imports nothing, in the scene that holds \<open>B\<close>: the run
  returns the scene it was given.
\<close>

theorem empty_import_aborts_witness:
  "process_single_obj (env_of import_nothing [file_B]) file_B default_settings [''A''] scene_with_B =
     (None, [''A''], scene_with_B)"
proof -
  define env where "env = env_of import_nothing [file_B]"
  have h: "handle_name_collision default_settings (path_stem file_B) scene_with_B =
             (Inr ''B_001'', scene_with_B)"
    by code_simp
  have i: "import_obj_file env file_B (st_up_axis default_settings) scene_with_B =
             (Inr [], scene_with_B)"
    unfolding env_def by code_simp
  from empty_import_aborts [OF h i, of "[''A'']"]
  show ?thesis unfolding env_def by simp
qed

text \<open>
  The claim as stated fails in replace mode. The scene holds a collection \<open>B\<close> with one
  object; the file \<open>B.obj\<close> imports nothing (on that scene, and in the run). The import
  alone leaves the scene as it is; the run leaves it without the collection and without
  the object.
\<close>

theorem empty_import_side_effect_counterexample:
  "collection_names scene_with_B = [''B''] \<and>
   map fst (data_objects scene_with_B) = [0] \<and>
   import_obj_file (env_of import_nothing [file_B]) file_B ''Y'' scene_with_B =
     (Inr [], scene_with_B) \<and>
   fst (process_single_obj (env_of import_nothing [file_B]) file_B replace_settings []
          scene_with_B) = None \<and>
   snd (snd (process_single_obj (env_of import_nothing [file_B]) file_B replace_settings []
          scene_with_B)) \<noteq> scene_with_B \<and>
   collection_names (snd (snd (process_single_obj (env_of import_nothing [file_B]) file_B
          replace_settings [] scene_with_B))) = [] \<and>
   data_objects (snd (snd (process_single_obj (env_of import_nothing [file_B]) file_B
          replace_settings [] scene_with_B))) = []"
  by code_simp

subsection \<open>Layer collections under the operations of the pipeline\<close>

lemma lc_nodes_names: "map fst (lc_nodes c) = lc_names c"
  by (induction c) (simp add: map_concat cong: map_cong)

lemma collection_names_layer_nodes: "collection_names s = map fst (layer_nodes s)"
  by (simp add: collection_names_def layer_nodes_def map_concat lc_nodes_names cong: map_cong)

lemma lc_nodes_unlink: "lc_nodes (lc_unlink_object i c) = lc_nodes c"
  by (induction c) (simp cong: map_cong)

lemma lc_name_unlink: "lc_name (lc_unlink_object i c) = lc_name c"
  by (cases c) simp

lemma lc_nodes_link: "lc_nodes (lc_link_object name i c) = lc_nodes c"
  by (induction c) (simp cong: map_cong)

lemma subseq_concat_filter:
  "(\<And>c. c \<in> set cs \<Longrightarrow> subseq (f c) (g c)) \<Longrightarrow>
   subseq (concat (map f (filter P cs))) (concat (map g cs))"
proof (induction cs)
  case Nil
  then show ?case by simp
next
  case (Cons c cs)
  then have rest: "subseq (concat (map f (filter P cs))) (concat (map g cs))" by simp
  show ?case
  proof (cases "P c")
    case True
    with Cons.prems rest show ?thesis by (simp add: list_emb_append_mono)
  next
    case False
    with rest show ?thesis by (simp add: list_emb_append2)
  qed
qed

lemma lc_nodes_remove_subseq: "subseq (lc_nodes (lc_remove name c)) (lc_nodes c)"
proof (induction c)
  case (LCol n e os cs)
  have "subseq (concat (map (\<lambda>c. lc_nodes (lc_remove name c)) (filter (\<lambda>c. lc_name c \<noteq> name) cs)))
               (concat (map lc_nodes cs))"
    by (rule subseq_concat_filter) (rule LCol.IH)
  then show ?case by (simp add: comp_def)
qed

lemma lc_nodes_remove_absent:
  "lc_name c \<noteq> name \<Longrightarrow> name \<notin> fst ` set (lc_nodes (lc_remove name c))"
proof (induction c)
  case (LCol n e os cs)
  have "\<And>c. c \<in> set cs \<Longrightarrow> lc_name c \<noteq> name \<Longrightarrow> name \<notin> fst ` set (lc_nodes (lc_remove name c))"
    by (rule LCol.IH)
  with LCol.prems show ?case by (auto simp: comp_def)
qed

lemma layer_nodes_data_objects_remove [simp]:
  "layer_nodes (data_objects_remove i s) = layer_nodes s"
  by (cases "layer_collection s")
     (simp add: layer_nodes_def data_objects_remove_def lc_nodes_unlink comp_def cong: map_cong)

lemma root_name_data_objects_remove [simp]:
  "root_name (data_objects_remove i s) = root_name s"
  by (simp add: root_name_def data_objects_remove_def lc_name_unlink)

lemma data_collections_remove_layers:
  "subseq (layer_nodes (data_collections_remove name s)) (layer_nodes s) \<and>
   root_name (data_collections_remove name s) = root_name s \<and>
   name \<notin> fst ` set (layer_nodes (data_collections_remove name s))"
proof (cases "layer_collection s")
  case (LCol n e os cs)
  have "subseq (concat (map (\<lambda>c. lc_nodes (lc_remove name c)) (filter (\<lambda>c. lc_name c \<noteq> name) cs)))
               (concat (map lc_nodes cs))"
    by (rule subseq_concat_filter) (rule lc_nodes_remove_subseq)
  moreover have "name \<notin> fst ` set (concat (map (\<lambda>c. lc_nodes (lc_remove name c))
                                (filter (\<lambda>c. lc_name c \<noteq> name) cs)))"
    using lc_nodes_remove_absent [of _ name] by auto
  ultimately show ?thesis
    using LCol by (simp add: layer_nodes_def root_name_def data_collections_remove_def comp_def)
qed

lemma fold_keeps_layers:
  assumes "\<And>x s. x \<in> set xs \<Longrightarrow>
             subseq (layer_nodes (f x s)) (layer_nodes s) \<and> root_name (f x s) = root_name s"
  shows "subseq (layer_nodes (fold f xs s)) (layer_nodes s) \<and> root_name (fold f xs s) = root_name s"
  using assms
proof (induction xs arbitrary: s)
  case Nil
  then show ?case by simp
next
  case (Cons x xs)
  have step: "subseq (layer_nodes (f x s)) (layer_nodes s) \<and> root_name (f x s) = root_name s"
    using Cons.prems by simp
  have "subseq (layer_nodes (fold f xs (f x s))) (layer_nodes (f x s)) \<and>
        root_name (fold f xs (f x s)) = root_name (f x s)"
    using Cons.prems by (intro Cons.IH) simp
  with step show ?case by (auto intro: subseq_order.trans)
qed

lemma delete_collection_recursive_layers:
  "subseq (layer_nodes (delete_collection_recursive col s)) (layer_nodes s) \<and>
   root_name (delete_collection_recursive col s) = root_name s \<and>
   lc_name col \<notin> fst ` set (layer_nodes (delete_collection_recursive col s))"
proof (induction col s rule: delete_collection_recursive.induct)
  case (1 n e os cs s)
  let ?s1 = "fold delete_collection_recursive cs s"
  let ?s2 = "fold data_objects_remove (collection_objects ?s1 n) ?s1"
  have s1: "subseq (layer_nodes ?s1) (layer_nodes s) \<and> root_name ?s1 = root_name s"
    by (rule fold_keeps_layers) (use "1.IH" in blast)
  have s2: "subseq (layer_nodes ?s2) (layer_nodes ?s1) \<and> root_name ?s2 = root_name ?s1"
    by (rule fold_keeps_layers) simp
  from data_collections_remove_layers [of n ?s2] s1 s2
  show ?case by (auto simp: Let_def intro: subseq_order.trans)
qed

lemma lc_get_name:
  "lc_get c name = Some r \<Longrightarrow> lc_name r = name"
  "lc_get_list cs name = Some r \<Longrightarrow> lc_name r = name"
  by (induction c name and cs name rule: lc_get_lc_get_list.induct)
     (auto split: option.splits if_splits)

lemma first_free_suffix_free:
  "first_free_suffix names base_name js = Some c \<Longrightarrow> c \<notin> set names"
  by (induction js) (auto simp: Let_def split: if_splits)

lemma unique_collection_name_free:
  "unique_collection_name s base_name = Inr c \<Longrightarrow> c \<notin> set (collection_names s)"
  by (auto simp: unique_collection_name_def split: if_splits option.splits
           dest: first_free_suffix_free)

lemma handle_name_collision_layers:
  assumes "handle_name_collision st stem s0 = (r, s1)"
  shows "subseq (layer_nodes s1) (layer_nodes s0) \<and> root_name s1 = root_name s0 \<and>
         (\<forall>col_name. r = Inr col_name \<longrightarrow> col_name \<notin> fst ` set (layer_nodes s1))"
proof (cases "if st_replace_existing st then collections_get s0 stem else None")
  case None
  with assms have "s1 = s0" "r = unique_collection_name s0 stem"
    by (auto simp add: handle_name_collision_def)
  then show ?thesis
    using unique_collection_name_free [of s0 stem]
    by (auto simp: collection_names_layer_nodes)
next
  case (Some col)
  with assms have r: "r = Inr stem" "s1 = delete_collection_recursive col s0"
    by (auto simp add: handle_name_collision_def)
  from Some have "collections_get s0 stem = Some col" by (simp split: if_splits)
  then have "lc_name col = stem" by (simp add: collections_get_def lc_get_name)
  with r delete_collection_recursive_layers [of col s0] show ?thesis by auto
qed

lemma find_assign_None:
  "find_layer_collection c name = None \<longleftrightarrow> assign_exclude name v c = None"
  "find_layer_collection_children cs name = None \<longleftrightarrow> assign_exclude_children name v cs = None"
  by (induction c name and cs name rule: find_layer_collection_find_layer_collection_children.induct)
     (auto split: option.splits)

lemma flag_nodes_absent: "name \<notin> fst ` set nodes \<Longrightarrow> flag_nodes name v nodes = nodes"
  by (induction nodes) (auto simp: flag_nodes_def)

lemma flag_nodes_append: "flag_nodes name v (xs @ ys) = flag_nodes name v xs @ flag_nodes name v ys"
  by (simp add: flag_nodes_def)

lemma flag_nodes_names: "map fst (flag_nodes name v nodes) = map fst nodes"
  by (induction nodes) (auto simp: flag_nodes_def)

lemma assign_exclude_nodes:
  "distinct (map fst (lc_nodes c)) \<Longrightarrow>
     (case assign_exclude name v c of
        None \<Rightarrow> name \<notin> fst ` set (lc_nodes c)
      | Some c' \<Rightarrow> lc_nodes c' = flag_nodes name v (lc_nodes c) \<and> lc_name c' = lc_name c \<and>
                  name \<in> fst ` set (lc_nodes c))"
  "distinct (map fst (concat (map lc_nodes cs))) \<Longrightarrow>
     (case assign_exclude_children name v cs of
        None \<Rightarrow> name \<notin> fst ` set (concat (map lc_nodes cs))
      | Some cs' \<Rightarrow> concat (map lc_nodes cs') = flag_nodes name v (concat (map lc_nodes cs)) \<and>
                   name \<in> fst ` set (concat (map lc_nodes cs)))"
proof (induction name v c and name v cs rule: assign_exclude_assign_exclude_children.induct)
  case (1 name v n e os cs)
  show ?case
  proof (cases "n = name")
    case True
    with "1.prems" have "name \<notin> fst ` set (concat (map lc_nodes cs))" by auto
    then have "flag_nodes name v (concat (map lc_nodes cs)) = concat (map lc_nodes cs)"
      by (rule flag_nodes_absent)
    with True show ?thesis by (simp add: flag_nodes_def)
  next
    case False
    from "1.prems" have "distinct (map fst (concat (map lc_nodes cs)))" by simp
    from "1.IH" [OF False this] False show ?thesis
      by (auto simp: flag_nodes_def split: option.splits)
  qed
next
  case (2 name v)
  then show ?case by simp
next
  case (3 name v child cs)
  from "3.prems" have dc: "distinct (map fst (lc_nodes child))"
    and dcs: "distinct (map fst (concat (map lc_nodes cs)))"
    and disj: "fst ` set (lc_nodes child) \<inter> fst ` set (concat (map lc_nodes cs)) = {}"
    by auto
  show ?case
  proof (cases "assign_exclude name v child")
    case None
    with "3.IH"(1) [OF dc] have absent: "name \<notin> fst ` set (lc_nodes child)" by simp
    then have keep: "flag_nodes name v (lc_nodes child) = lc_nodes child"
      by (rule flag_nodes_absent)
    from "3.IH"(2) [OF None dcs] None absent keep show ?thesis
      by (auto simp: flag_nodes_append split: option.splits)
  next
    case (Some child')
    with "3.IH"(1) [OF dc] have c': "lc_nodes child' = flag_nodes name v (lc_nodes child)"
      and present: "name \<in> fst ` set (lc_nodes child)" by simp_all
    from present disj have "name \<notin> fst ` set (concat (map lc_nodes cs))" by blast
    then have "flag_nodes name v (concat (map lc_nodes cs)) = concat (map lc_nodes cs)"
      by (rule flag_nodes_absent)
    with Some c' present show ?thesis by (auto simp add: flag_nodes_append)
  qed
qed

lemma set_collection_visibility_layers:
  assumes "root_name s \<noteq> col_name" and "distinct (collection_names s)"
  shows "layer_nodes (set_collection_visibility col_name visible_flag s) =
           flag_nodes col_name (\<not> visible_flag) (layer_nodes s) \<and>
         root_name (set_collection_visibility col_name visible_flag s) = root_name s"
proof (cases "layer_collection s")
  case (LCol n e os cs)
  with assms have ne: "n \<noteq> col_name" by (simp add: root_name_def)
  from assms(2) LCol have d: "distinct (map fst (concat (map lc_nodes cs)))"
    by (simp add: collection_names_layer_nodes layer_nodes_def)
  show ?thesis
  proof (cases "assign_exclude_children col_name (\<not> visible_flag) cs")
    case None
    with assign_exclude_nodes(2) [OF d, of col_name "\<not> visible_flag"]
    have "col_name \<notin> fst ` set (concat (map lc_nodes cs))" by simp
    then have "flag_nodes col_name (\<not> visible_flag) (layer_nodes s) = layer_nodes s"
      using LCol by (simp add: layer_nodes_def flag_nodes_absent)
    moreover have "set_collection_visibility col_name visible_flag s = s"
      using None LCol ne by (simp add: set_collection_visibility_def split: option.splits)
    ultimately show ?thesis by simp
  next
    case (Some cs')
    with assign_exclude_nodes(2) [OF d, of col_name "\<not> visible_flag"]
    have cs': "concat (map lc_nodes cs') = flag_nodes col_name (\<not> visible_flag) (concat (map lc_nodes cs))"
      by simp
    have found: "find_layer_collection (layer_collection s) col_name \<noteq> None"
      using find_assign_None(1) [of "layer_collection s" col_name "\<not> visible_flag"] Some LCol ne
      by simp
    then have "set_collection_visibility col_name visible_flag s =
               s\<lparr>layer_collection := LCol n e os cs'\<rparr>"
      using Some LCol ne by (auto simp: set_collection_visibility_def split: option.splits)
    with cs' LCol show ?thesis by (simp add: layer_nodes_def root_name_def)
  qed
qed

text \<open>What the other operations of the pipeline leave of the layer collections.\<close>

lemma layers_update_object [simp]:
  "layer_nodes (update_object i f s) = layer_nodes s"
  "root_name (update_object i f s) = root_name s"
  by (simp_all add: update_object_def layer_nodes_def root_name_def)

lemma layers_fold_update_object [simp]:
  "layer_nodes (fold (\<lambda>i. update_object i (f i)) xs s) = layer_nodes s"
  "root_name (fold (\<lambda>i. update_object i (f i)) xs s) = root_name s"
  by (induction xs arbitrary: s) simp_all

lemma layers_scale_targets [simp]:
  "layer_nodes (snd (scale_targets R bake objects s)) = layer_nodes s"
  "root_name (snd (scale_targets R bake objects s)) = root_name s"
  by (induction objects arbitrary: s) (simp_all split: option.splits)

lemma layers_apply_scale_reference [simp]:
  "layer_nodes (snd (apply_scale_reference objects ref_obj bake s)) = layer_nodes s"
  "root_name (snd (apply_scale_reference objects ref_obj bake s)) = root_name s"
  by (simp_all add: apply_scale_reference_def Let_def split: option.splits)

lemma layer_collection_fold_slots:
  "layer_collection (fold (\<lambda>slot s'.
                 case slot of
                   None \<Rightarrow> s'
                 | Some m \<Rightarrow>
                     s'\<lparr>data_materials :=
                          map (\<lambda>(j, mat). if j = m then (j, rewire_material mat) else (j, mat))
                            (data_materials s')\<rparr>) slots s) = layer_collection s"
  by (induction slots arbitrary: s) (simp_all split: option.splits)

lemma layers_apply_diffuse_obj [simp]:
  "layer_nodes (apply_diffuse_as_emissive_obj i s) = layer_nodes s"
  "root_name (apply_diffuse_as_emissive_obj i s) = root_name s"
  by (simp_all add: apply_diffuse_as_emissive_obj_def layer_nodes_def root_name_def
      layer_collection_fold_slots split: option.splits)

lemma layers_apply_diffuse [simp]:
  "layer_nodes (apply_diffuse_as_emissive objects s) = layer_nodes s"
  "root_name (apply_diffuse_as_emissive objects s) = root_name s"
  unfolding apply_diffuse_as_emissive_def
  by (induction objects arbitrary: s) simp_all

lemma layers_data_objects_new [simp]:
  "layer_nodes (snd (data_objects_new name s)) = layer_nodes s"
  "root_name (snd (data_objects_new name s)) = root_name s"
  by (simp_all add: data_objects_new_def layer_nodes_def root_name_def)

lemma layers_scene_collection_objects_link [simp]:
  "layer_nodes (scene_collection_objects_link i s) = layer_nodes s"
  "root_name (scene_collection_objects_link i s) = root_name s"
  by (cases "layer_collection s";
      simp add: scene_collection_objects_link_def layer_nodes_def root_name_def)+

lemma layers_move_to_collection [simp]:
  "layer_nodes (move_to_collection obj col s) = layer_nodes s"
  "root_name (move_to_collection obj col s) = root_name s"
  by (cases "layer_collection s";
      simp add: move_to_collection_def collection_objects_link_def layer_nodes_def root_name_def
        lc_nodes_link lc_nodes_unlink comp_def cong: map_cong)+

lemma layers_fold_move_to_collection [simp]:
  "layer_nodes (fold (\<lambda>obj. move_to_collection obj col) xs s) = layer_nodes s"
  "root_name (fold (\<lambda>obj. move_to_collection obj col) xs s) = root_name s"
  by (induction xs arbitrary: s) simp_all

lemma layers_collections_new_linked [simp]:
  "layer_nodes (collections_new_linked col_name s) = layer_nodes s @ [(col_name, False)]"
  "root_name (collections_new_linked col_name s) = root_name s"
  by (cases "layer_collection s";
      simp add: collections_new_linked_def layer_nodes_def root_name_def)+

lemma layers_import_obj_file:
  assumes "import_keeps_layers env"
  shows "layer_nodes (snd (import_obj_file env filepath axis s)) = layer_nodes s \<and>
         root_name (snd (import_obj_file env filepath axis s)) = root_name s"
proof -
  have "snd (import_obj_file env filepath axis s) = snd (obj_import env (path_str filepath) axis s)"
    by (cases "obj_import env (path_str filepath) axis s")
       (simp add: import_obj_file_def Let_def split: option.splits)
  with assms show ?thesis by (simp add: import_keeps_layers_def)
qed

lemma layers_place_new_objects [simp]:
  "layer_nodes (place_new_objects st new_objects s) = layer_nodes s"
  "root_name (place_new_objects st new_objects s) = root_name s"
  by (simp_all add: place_new_objects_def Let_def)

lemma layers_scale_new_objects [simp]:
  "layer_nodes (snd (scale_new_objects st new_objects s)) = layer_nodes s"
  "root_name (snd (scale_new_objects st new_objects s)) = root_name s"
  by (simp_all add: scale_new_objects_def split: option.splits)

lemma layers_group_new_objects [simp]:
  "layer_nodes (group_new_objects stem col_name new_objects s) = layer_nodes s @ [(col_name, False)]"
  "root_name (group_new_objects stem col_name new_objects s) = root_name s"
  by (simp_all add: group_new_objects_def Let_def case_prod_beta)

lemma process_single_obj_tail:
  assumes h: "handle_name_collision st (path_stem filepath) s0 = (Inr col_name, s1)"
    and i: "import_obj_file env filepath (st_up_axis st) s1 = (Inr new_objects, s2)"
    and ne: "new_objects \<noteq> []"
    and res: "process_single_obj env filepath st created s0 = (r, created', s')"
  shows "(r \<noteq> None \<and> created' = created \<and> layer_nodes s' = layer_nodes s2 \<and>
            root_name s' = root_name s2) \<or>
         (r = None \<and> created' = created @ [col_name] \<and>
            (\<exists>sx. layer_nodes sx = layer_nodes s2 @ [(col_name, False)] \<and>
                  root_name sx = root_name s2 \<and>
                  s' = set_collection_visibility col_name True
                         (if created \<noteq> []
                          then set_collection_visibility (last created) False sx else sx)))"
proof -
  define p5 where "p5 = scale_new_objects st new_objects (place_new_objects st new_objects s2)"
  have l5: "layer_nodes (snd p5) = layer_nodes s2 \<and> root_name (snd p5) = root_name s2"
    by (simp add: p5_def)
  show ?thesis
  proof (cases "fst p5")
    case (Some e)
    have "process_single_obj env filepath st created s0 = (Some e, created, snd p5)"
      using h i ne Some
      by (simp add: process_single_obj_def Let_def case_prod_beta p5_def [symmetric])
    with res l5 show ?thesis by auto
  next
    case None
    define s13 where "s13 = group_new_objects (path_stem filepath) col_name new_objects
        (if st_diffuse_as_emissive st then apply_diffuse_as_emissive new_objects (snd p5)
         else snd p5)"
    have l13: "layer_nodes s13 = layer_nodes s2 @ [(col_name, False)] \<and> root_name s13 = root_name s2"
      using l5 by (simp add: s13_def)
    have "process_single_obj env filepath st created s0 =
            (None, created @ [col_name],
             set_collection_visibility col_name True
               (if created \<noteq> [] then set_collection_visibility (last created) False s13 else s13))"
      using h i ne None
      by (simp add: process_single_obj_def Let_def case_prod_beta p5_def [symmetric] s13_def)
    with res l13 show ?thesis by auto
  qed
qed

lemma process_single_obj_layers:
  assumes keep: "import_keeps_layers env"
    and res: "process_single_obj env filepath st created s0 = (r, created', s')"
  shows "(created' = created \<and> subseq (layer_nodes s') (layer_nodes s0) \<and>
            root_name s' = root_name s0) \<or>
         (\<exists>col_name sx. r = None \<and> created' = created @ [col_name] \<and>
            subseq (butlast (layer_nodes sx)) (layer_nodes s0) \<and>
            col_name \<notin> fst ` set (butlast (layer_nodes sx)) \<and>
            layer_nodes sx = butlast (layer_nodes sx) @ [(col_name, False)] \<and>
            root_name sx = root_name s0 \<and>
            s' = set_collection_visibility col_name True
                   (if created \<noteq> []
                    then set_collection_visibility (last created) False sx else sx))"
proof -
  obtain nr s1 where h: "handle_name_collision st (path_stem filepath) s0 = (nr, s1)"
    by (cases "handle_name_collision st (path_stem filepath) s0")
  note hl = handle_name_collision_layers [OF h]
  show ?thesis
  proof (cases nr)
    case (Inl e)
    with h res have "created' = created" "s' = s1"
      by (simp_all add: process_single_obj_def Let_def)
    with hl show ?thesis by simp
  next
    case (Inr col_name)
    obtain ir s2 where i: "import_obj_file env filepath (st_up_axis st) s1 = (ir, s2)"
      by (cases "import_obj_file env filepath (st_up_axis st) s1")
    from layers_import_obj_file [OF keep, of filepath "st_up_axis st" s1] i
    have il: "layer_nodes s2 = layer_nodes s1" "root_name s2 = root_name s1" by simp_all
    show ?thesis
    proof (cases ir)
      case (Inl e)
      with h i Inr res have "created' = created" "s' = s2"
        by (simp_all add: process_single_obj_def Let_def)
      with hl il show ?thesis by simp
    next
      case new: (Inr new_objects)
      show ?thesis
      proof (cases "new_objects = []")
        case True
        with h i Inr new res have "created' = created" "s' = s2"
          by (simp_all add: process_single_obj_def Let_def)
        with hl il show ?thesis by simp
      next
        case False
        from process_single_obj_tail [OF h [unfolded Inr] i [unfolded new] False res]
        show ?thesis
        proof
          assume "r \<noteq> None \<and> created' = created \<and> layer_nodes s' = layer_nodes s2 \<and>
                  root_name s' = root_name s2"
          with hl il show ?thesis by simp
        next
          assume "r = None \<and> created' = created @ [col_name] \<and>
            (\<exists>sx. layer_nodes sx = layer_nodes s2 @ [(col_name, False)] \<and>
                  root_name sx = root_name s2 \<and>
                  s' = set_collection_visibility col_name True
                         (if created \<noteq> []
                          then set_collection_visibility (last created) False sx else sx))"
          then obtain sx where sx: "r = None" "created' = created @ [col_name]"
            "layer_nodes sx = layer_nodes s2 @ [(col_name, False)]" "root_name sx = root_name s2"
            "s' = set_collection_visibility col_name True
                         (if created \<noteq> []
                          then set_collection_visibility (last created) False sx else sx)"
            by blast
          from sx(3) have bl: "butlast (layer_nodes sx) = layer_nodes s2" by simp
          from hl Inr have "col_name \<notin> fst ` set (layer_nodes s1)" by simp
          with sx bl hl il
          have "r = None \<and> created' = created @ [col_name] \<and>
            subseq (butlast (layer_nodes sx)) (layer_nodes s0) \<and>
            col_name \<notin> fst ` set (butlast (layer_nodes sx)) \<and>
            layer_nodes sx = butlast (layer_nodes sx) @ [(col_name, False)] \<and>
            root_name sx = root_name s0 \<and>
            s' = set_collection_visibility col_name True
                   (if created \<noteq> []
                    then set_collection_visibility (last created) False sx else sx)"
            by simp
          then show ?thesis by blast
        qed
      qed
    qed
  qed
qed

lemma subseq_nodes:
  assumes "subseq xs ys"
  shows "set xs \<subseteq> set ys" and "distinct (map fst ys) \<Longrightarrow> distinct (map fst xs)"
proof -
  show "set xs \<subseteq> set ys"
    using assms by (auto elim: list_emb_set)
  assume d: "distinct (map fst ys)"
  have "subseq (map fst xs) (map fst ys)" using assms by (rule subseq_map)
  then have "map fst xs \<in> set (subseqs (map fst ys))" by simp
  from subseqs_distinctD [OF this d] show "distinct (map fst xs)" .
qed

lemma flag_nodes_mem:
  "(n, e) \<in> set (flag_nodes name v nodes) \<longleftrightarrow>
     (if n = name then e = v \<and> n \<in> fst ` set nodes else (n, e) \<in> set nodes)"
proof (induction nodes)
  case Nil
  then show ?case by (simp add: flag_nodes_def)
next
  case (Cons x nodes)
  obtain a b where x: "x = (a, b)" by (cases x)
  have "flag_nodes name v (x # nodes) =
          (if a = name then (a, v) else (a, b)) # flag_nodes name v nodes"
    by (simp add: flag_nodes_def x)
  with Cons.IH x show ?case by (auto split: if_splits)
qed

lemma flag_nodes_fst_set: "fst ` set (flag_nodes name v nodes) = fst ` set nodes"
  using flag_nodes_names [of name v nodes] by (metis set_map)

text \<open>
  One run of the pipeline. If before it no collection created by the job other than the
  last one is visible, the same holds after it for the list as the run leaves it. A run
  that creates a collection leaves it visible, alone among the names created by the
  job, and writes no flag but its own and that of the last collection created before.
  A run that creates none writes no flag.
\<close>

lemma process_single_obj_vis_inv:
  assumes inv: "vis_inv created s0"
    and keep: "import_keeps_layers env"
    and res: "process_single_obj env filepath st created s0 = (r, created', s')"
    and root: "root_name s0 \<notin> set created'"
  shows "vis_inv created' s' \<and> root_name s' = root_name s0 \<and>
         (created' \<noteq> created \<longrightarrow>
            (\<exists>col_name. created' = created @ [col_name] \<and>
               (\<forall>n \<in> set created'. visible s' n \<longleftrightarrow> n = col_name) \<and>
               (\<forall>n e. (n, e) \<in> set (layer_nodes s') \<and> n \<noteq> col_name \<and>
                      (created = [] \<or> n \<noteq> last created)
                    \<longrightarrow> (n, e) \<in> set (layer_nodes s0)))) \<and>
         (created' = created \<longrightarrow> set (layer_nodes s') \<subseteq> set (layer_nodes s0))"
proof -
  from inv have d0: "distinct (map fst (layer_nodes s0))"
    and v0: "\<forall>n \<in> set created. visible s0 n \<longrightarrow> n = last created"
    by (simp_all add: vis_inv_def collection_names_layer_nodes)
  from process_single_obj_layers [OF keep res]
  show ?thesis
  proof
    assume a: "created' = created \<and> subseq (layer_nodes s') (layer_nodes s0) \<and>
               root_name s' = root_name s0"
    then have sub: "set (layer_nodes s') \<subseteq> set (layer_nodes s0)"
      and d: "distinct (map fst (layer_nodes s'))"
      using subseq_nodes [of "layer_nodes s'" "layer_nodes s0"] d0 by simp_all
    from sub v0 have "\<forall>n \<in> set created. visible s' n \<longrightarrow> n = last created"
      by (auto simp: visible_def)
    with a sub d show ?thesis
      by (simp add: vis_inv_def collection_names_layer_nodes)
  next
    assume "\<exists>col_name sx. r = None \<and> created' = created @ [col_name] \<and>
            subseq (butlast (layer_nodes sx)) (layer_nodes s0) \<and>
            col_name \<notin> fst ` set (butlast (layer_nodes sx)) \<and>
            layer_nodes sx = butlast (layer_nodes sx) @ [(col_name, False)] \<and>
            root_name sx = root_name s0 \<and>
            s' = set_collection_visibility col_name True
                   (if created \<noteq> []
                    then set_collection_visibility (last created) False sx else sx)"
    then obtain col_name sx where c: "created' = created @ [col_name]"
      and sub: "subseq (butlast (layer_nodes sx)) (layer_nodes s0)"
      and fresh: "col_name \<notin> fst ` set (butlast (layer_nodes sx))"
      and nodes: "layer_nodes sx = butlast (layer_nodes sx) @ [(col_name, False)]"
      and rx: "root_name sx = root_name s0"
      and s': "s' = set_collection_visibility col_name True
                   (if created \<noteq> []
                    then set_collection_visibility (last created) False sx else sx)"
      by blast
    define old where "old = butlast (layer_nodes sx)"
    from sub have oldsub: "set old \<subseteq> set (layer_nodes s0)"
      and oldd: "distinct (map fst old)"
      using subseq_nodes [of old "layer_nodes s0"] d0 by (simp_all add: old_def)
    from nodes have nx: "layer_nodes sx = old @ [(col_name, False)]" by (simp add: old_def)
    from fresh have fresh': "col_name \<notin> fst ` set old" by (simp add: old_def)
    have dx: "distinct (collection_names sx)"
      using oldd fresh' by (simp add: collection_names_layer_nodes nx)
    from root c have rc: "root_name s0 \<noteq> col_name" and rl: "created \<noteq> [] \<Longrightarrow> root_name s0 \<noteq> last created"
      by auto
    define sh where "sh = (if created \<noteq> [] then set_collection_visibility (last created) False sx else sx)"
    have nh: "layer_nodes sh = (if created \<noteq> [] then flag_nodes (last created) True (layer_nodes sx)
                                else layer_nodes sx) \<and> root_name sh = root_name s0"
      using set_collection_visibility_layers [of sx "last created" False] rx rl dx
      by (simp add: sh_def)
    then have dh: "distinct (collection_names sh)"
      using dx by (simp add: collection_names_layer_nodes flag_nodes_names)
    have n': "layer_nodes s' = flag_nodes col_name False (layer_nodes sh)"
      and r': "root_name s' = root_name s0"
      using set_collection_visibility_layers [of sh col_name True] nh rc dh s'
      by (simp_all add: sh_def)
    have mem: "(n, e) \<in> set (layer_nodes s') \<longleftrightarrow>
          (if n = col_name then e = False
           else if created \<noteq> [] \<and> n = last created then e = True \<and> n \<in> fst ` set old
           else (n, e) \<in> set old)" for n e
      using nh by (auto simp: n' nx flag_nodes_mem flag_nodes_fst_set image_Un)
    have d': "distinct (collection_names s')"
      using dh by (simp add: collection_names_layer_nodes n' flag_nodes_names)
    have vis: "\<forall>n \<in> set created'. visible s' n \<longleftrightarrow> n = col_name"
    proof
      fix n assume n: "n \<in> set created'"
      show "visible s' n \<longleftrightarrow> n = col_name"
      proof (cases "n = col_name")
        case True
        then show ?thesis by (simp add: visible_def mem)
      next
        case False
        with n c have nc: "n \<in> set created" by simp
        then have ne: "created \<noteq> []" by auto
        show ?thesis
        proof (cases "n = last created")
          case True
          with False ne show ?thesis by (simp add: visible_def mem)
        next
          case other: False
          with v0 nc have "\<not> visible s0 n" by blast
          with oldsub have "(n, False) \<notin> set old" by (auto simp: visible_def)
          with False other show ?thesis by (simp add: visible_def mem)
        qed
      qed
    qed
    have frame: "\<forall>n e. (n, e) \<in> set (layer_nodes s') \<and> n \<noteq> col_name \<and>
                      (created = [] \<or> n \<noteq> last created)
                    \<longrightarrow> (n, e) \<in> set (layer_nodes s0)"
      using oldsub by (auto simp: mem)
    have "vis_inv created' s'"
      using d' vis c by (simp add: vis_inv_def)
    with c vis frame r' show ?thesis by auto
  qed
qed



lemma import_box_keeps_layers: "import_keeps_layers (env_of import_box files)"
  by (simp add: import_keeps_layers_def env_of_def import_box_def layer_nodes_def root_name_def
      scene_collection_objects_link_def split: lcol.splits)

text \<open>
  After \<open>A\<close>, \<open>B\<close>, \<open>C\<close>, with \<open>C\<close> visible, the file \<open>B.obj\<close> is processed in replace mode:
  the list becomes \<open>A, B, C, B\<close>, the collection named \<open>B\<close> is visible, \<open>A\<close> and \<open>C\<close> are
  hidden.
\<close>

lemma replace_mode_reprocessing_example:
  "fst (snd (process_single_obj (env_of import_box [file_B]) file_B replace_settings
          [''A'', ''B'', ''C''] scene_ABC)) = [''A'', ''B'', ''C'', ''B''] \<and>
   visible (snd (snd (process_single_obj (env_of import_box [file_B]) file_B replace_settings
          [''A'', ''B'', ''C''] scene_ABC))) ''B'' \<and>
   \<not> visible (snd (snd (process_single_obj (env_of import_box [file_B]) file_B replace_settings
          [''A'', ''B'', ''C''] scene_ABC))) ''A'' \<and>
   \<not> visible (snd (snd (process_single_obj (env_of import_box [file_B]) file_B replace_settings
          [''A'', ''B'', ''C''] scene_ABC))) ''C''"
proof -
  define env where "env = env_of import_box [file_B]"
  define res where "res = process_single_obj env file_B replace_settings [''A'', ''B'', ''C''] scene_ABC"
  have inv: "vis_inv [''A'', ''B'', ''C''] scene_ABC"
    by (simp add: vis_inv_def visible_def layer_nodes_def collection_names_def scene_ABC_def)
  have keep: "import_keeps_layers env"
    unfolding env_def by (rule import_box_keeps_layers)
  have created: "fst (snd res) = [''A'', ''B'', ''C'', ''B'']"
    unfolding res_def env_def by code_simp
  have r: "process_single_obj env file_B replace_settings [''A'', ''B'', ''C''] scene_ABC =
             (fst res, fst (snd res), snd (snd res))"
    by (simp add: res_def)
  have root: "root_name scene_ABC \<notin> set (fst (snd res))"
    by (simp add: created root_name_def scene_ABC_def)
  from process_single_obj_vis_inv [OF inv keep r root] created
  obtain col_name where "[''A'', ''B'', ''C'', ''B''] = [''A'', ''B'', ''C''] @ [col_name]"
    and v: "\<forall>n \<in> set [''A'', ''B'', ''C'', ''B'']. visible (snd (snd res)) n \<longleftrightarrow> n = col_name"
    by auto
  then have "col_name = ''B''" by simp
  with v created have "fst (snd res) = [''A'', ''B'', ''C'', ''B''] \<and>
     visible (snd (snd res)) ''B'' \<and> \<not> visible (snd (snd res)) ''A'' \<and>
     \<not> visible (snd (snd res)) ''C''"
    by simp
  then show ?thesis unfolding res_def env_def .
qed

subsection \<open>The visibility bookkeeping over a job\<close>

lemma layers_view_layer_update [simp]:
  "layer_nodes (view_layer_update env s) = layer_nodes s"
  "root_name (view_layer_update env s) = root_name s"
  by (simp_all add: view_layer_update_def layer_nodes_def root_name_def)














subsection \<open>Matrices, spans and boxes\<close>

lemma mat_vec_mat_mul: "mat_vec (mat_mul M N) v = mat_vec M (mat_vec N v)"
proof -
  obtain m00 m01 m02 m10 m11 m12 m20 m21 m22 mx my mz
    where M: "M = (((m00, m01, m02), (m10, m11, m12), (m20, m21, m22)), (mx, my, mz))"
    by (metis prod_cases3 surj_pair)
  obtain n00 n01 n02 n10 n11 n12 n20 n21 n22 nx ny nz
    where N: "N = (((n00, n01, n02), (n10, n11, n12), (n20, n21, n22)), (nx, ny, nz))"
    by (metis prod_cases3 surj_pair)
  obtain x y z where v: "v = (x, y, z)" by (metis prod_cases3)
  show ?thesis
    by (simp add: M N v mat_mul_def mat_vec_def vidx_def vsub_def Let_def algebra_simps)
qed

lemma mat_vec_matrix_basis:
  "mat_vec (matrix_basis obj) v = mat_vec (obj_rotation obj, obj_location obj) (vmul (obj_scale obj) v)"
proof -
  obtain r0 r1 r2 where R: "obj_rotation obj = (r0, r1, r2)" by (metis prod_cases3)
  obtain a0 a1 a2 where r0: "r0 = (a0, a1, a2)" by (metis prod_cases3)
  obtain b0 b1 b2 where r1: "r1 = (b0, b1, b2)" by (metis prod_cases3)
  obtain c0 c1 c2 where r2: "r2 = (c0, c1, c2)" by (metis prod_cases3)
  obtain sx sy sz where s: "obj_scale obj = (sx, sy, sz)" by (metis prod_cases3)
  obtain x y z where v: "v = (x, y, z)" by (metis prod_cases3)
  obtain tx ty tz where t: "obj_location obj = (tx, ty, tz)" by (metis prod_cases3)
  show ?thesis
    by (simp add: matrix_basis_def R r0 r1 r2 s v t mat_vec_def vmul_def vidx_def algebra_simps)
qed

lemma mat_vec_world_matrix:
  "mat_vec (world_matrix pw obj) v = mat_vec (world_frame pw obj) (vmul (obj_scale obj) v)"
  by (cases pw)
     (simp_all add: world_matrix_def world_frame_def mat_vec_mat_mul mat_vec_matrix_basis)

lemma world_frame_scale [simp]: "world_frame pw (obj\<lparr>obj_scale := s\<rparr>) = world_frame pw obj"
  by (cases pw) (simp_all add: world_frame_def)

lemma world_frame_data [simp]: "world_frame pw (obj\<lparr>obj_data := d\<rparr>) = world_frame pw obj"
  by (cases pw) (simp_all add: world_frame_def)

text \<open>An affine map commutes with scaling about the origin, up to its translation.\<close>

lemma mat_vec_vscale:
  "vidx (mat_vec F (vscale w k)) i = k * vidx (mat_vec F w) i + (1 - k) * vidx (mat_vec F (0, 0, 0)) i"
proof -
  obtain m00 m01 m02 m10 m11 m12 m20 m21 m22 mx my mz
    where F: "F = (((m00, m01, m02), (m10, m11, m12), (m20, m21, m22)), (mx, my, mz))"
    by (metis prod_cases3 surj_pair)
  obtain x y z where w: "w = (x, y, z)" by (metis prod_cases3)
  show ?thesis
    by (simp add: F w mat_vec_def vidx_def vscale_def algebra_simps)
qed

lemma mat_vec_vadd:
  "vidx (mat_vec (A, t) (vadd c d)) i =
     vidx (mat_vec (A, t') c) i + (vidx (mat_vec (A, t) d) i - vidx t' i)"
proof -
  obtain m00 m01 m02 m10 m11 m12 m20 m21 m22
    where A: "A = ((m00, m01, m02), (m10, m11, m12), (m20, m21, m22))"
    by (metis prod_cases3)
  obtain x y z where c: "c = (x, y, z)" by (metis prod_cases3)
  obtain dx dy dz where d: "d = (dx, dy, dz)" by (metis prod_cases3)
  obtain tx ty tz where t: "t = (tx, ty, tz)" by (metis prod_cases3)
  obtain ux uy uz where t': "t' = (ux, uy, uz)" by (metis prod_cases3)
  show ?thesis
    by (simp add: A c d t t' mat_vec_def vidx_def vadd_def algebra_simps)
qed

lemma vmul_vscale: "vmul (vscale s k) v = vscale (vmul s v) k"
  by (cases s, cases v) (simp add: vmul_def vscale_def algebra_simps)

lemma py_min_Min: "xs \<noteq> [] \<Longrightarrow> py_min xs = Min (set xs)"
  using Min.set_eq_fold [of "hd xs" "tl xs"] by (cases xs) (simp_all add: py_min_def)

lemma py_max_Max: "xs \<noteq> [] \<Longrightarrow> py_max xs = Max (set xs)"
  using Max.set_eq_fold [of "hd xs" "tl xs"] by (cases xs) (simp_all add: py_max_def)

lemma py_max_affine:
  assumes "xs \<noteq> []" and "0 \<le> k"
  shows "py_max (map (\<lambda>x. k * x + b) xs) = k * py_max xs + b"
proof -
  have "mono (\<lambda>x::real. k * x + b)"
    using assms(2) by (simp add: mono_def mult_left_mono)
  from mono_Max_commute [OF this, of "set xs"] assms(1)
  show ?thesis by (simp add: py_max_Max)
qed

lemma py_min_affine:
  assumes "xs \<noteq> []" and "0 \<le> k"
  shows "py_min (map (\<lambda>x. k * x + b) xs) = k * py_min xs + b"
proof -
  have "mono (\<lambda>x::real. k * x + b)"
    using assms(2) by (simp add: mono_def mult_left_mono)
  from mono_Min_commute [OF this, of "set xs"] assms(1)
  show ?thesis by (simp add: py_min_Min)
qed

lemma py_max_neg:
  assumes "xs \<noteq> []" and "k \<le> 0"
  shows "py_max (map (\<lambda>x. k * x) xs) = k * py_min xs"
proof -
  have "Max ((\<lambda>x. k * x) ` set xs) = k * Min (set xs)"
  proof (rule Max_eqI)
    show "finite ((\<lambda>x. k * x) ` set xs)" by simp
    show "k * Min (set xs) \<in> (\<lambda>x. k * x) ` set xs"
      using assms(1) by (intro imageI Min_in) simp_all
    fix y assume "y \<in> (\<lambda>x. k * x) ` set xs"
    then obtain x where x: "x \<in> set xs" "y = k * x" by blast
    then have "Min (set xs) \<le> x" by simp
    with assms(2) x show "y \<le> k * Min (set xs)" by (simp add: mult_left_mono_neg)
  qed
  then show ?thesis using assms(1) by (simp add: py_max_Max py_min_Min)
qed

lemma py_min_neg:
  assumes "xs \<noteq> []" and "k \<le> 0"
  shows "py_min (map (\<lambda>x. k * x) xs) = k * py_max xs"
proof -
  have "Min ((\<lambda>x. k * x) ` set xs) = k * Max (set xs)"
  proof (rule Min_eqI)
    show "finite ((\<lambda>x. k * x) ` set xs)" by simp
    show "k * Max (set xs) \<in> (\<lambda>x. k * x) ` set xs"
      using assms(1) by (intro imageI Max_in) simp_all
    fix y assume "y \<in> (\<lambda>x. k * x) ` set xs"
    then obtain x where x: "x \<in> set xs" "y = k * x" by blast
    then have "x \<le> Max (set xs)" by simp
    with assms(2) x show "k * Max (set xs) \<le> y" by (simp add: mult_left_mono_neg)
  qed
  then show ?thesis using assms(1) by (simp add: py_max_Max py_min_Min)
qed

lemma list_index_max: "ds \<noteq> [] \<Longrightarrow> ds ! list_index ds (py_max ds) = py_max ds"
proof -
  have idx: "v \<in> set ds \<Longrightarrow> ds ! list_index ds v = v" for v
    by (induction ds) auto
  assume "ds \<noteq> []"
  then have "py_max ds \<in> set ds" by (simp add: py_max_Max)
  then show ?thesis by (rule idx)
qed

lemma get_longest_axis_size_spans:
  "fst (get_longest_axis_size obj) = py_max (world_spans obj)"
proof -
  have ne: "world_spans obj \<noteq> []" by (simp add: world_spans_def axis_spans_def)
  have "fst (get_longest_axis_size obj) =
          world_spans obj ! list_index (world_spans obj) (py_max (world_spans obj))"
    by (simp add: get_longest_axis_size_def world_spans_def axis_spans_def Let_def comp_def
        del: list_index.simps)
  with list_index_max [OF ne] show ?thesis by simp
qed

lemma py_max_scaled:
  assumes "ds \<noteq> []" and "0 \<le> k"
  shows "py_max (map (\<lambda>d. d * k) ds) = py_max ds * k"
  using py_max_affine [OF assms, of 0] by (simp add: mult.commute)

text \<open>The spans depend on the corners as a set only.\<close>

lemma axis_spans_set:
  assumes "set cs = set cs'" and "cs \<noteq> []"
  shows "axis_spans M cs = axis_spans M cs'"
proof -
  from assms have ne: "cs' \<noteq> []" by auto
  have "py_max (map f cs) = py_max (map f cs') \<and> py_min (map f cs) = py_min (map f cs')"
    for f :: "vec3 \<Rightarrow> real"
    using assms ne by (simp add: py_max_Max py_min_Min)
  then show ?thesis by (simp add: axis_spans_def)
qed

text \<open>They do not change when the corners or the matrix are translated.\<close>

lemma axis_spans_translation:
  assumes "cs \<noteq> []"
  shows "axis_spans (A, t) (map (\<lambda>c. vadd c d) cs) = axis_spans (A, t') cs"
proof -
  have "py_max (map (\<lambda>c. vidx (mat_vec (A, t) c) i) (map (\<lambda>c. vadd c d) cs))
          - py_min (map (\<lambda>c. vidx (mat_vec (A, t) c) i) (map (\<lambda>c. vadd c d) cs))
        = py_max (map (\<lambda>c. vidx (mat_vec (A, t') c) i) cs)
          - py_min (map (\<lambda>c. vidx (mat_vec (A, t') c) i) cs)" for i
  proof -
    let ?b = "vidx (mat_vec (A, t) d) i - vidx t' i"
    let ?xs = "map (\<lambda>c. vidx (mat_vec (A, t') c) i) cs"
    have eq: "map (\<lambda>c. vidx (mat_vec (A, t) c) i) (map (\<lambda>c. vadd c d) cs) =
              map (\<lambda>x. 1 * x + ?b) ?xs"
      by (simp add: comp_def mat_vec_vadd [of A t _ d i t'])
    have ne: "?xs \<noteq> []" using assms by simp
    show ?thesis
      unfolding eq
      using py_max_affine [OF ne, of 1 ?b] py_min_affine [OF ne, of 1 ?b] by simp
  qed
  then show ?thesis by (simp add: axis_spans_def)
qed

text \<open>Scaling about the origin before an affine map scales the spans.\<close>

lemma axis_spans_scaled:
  assumes "cs \<noteq> []" and "0 \<le> k"
  shows "axis_spans F (map (\<lambda>c. vscale c k) cs) = map (\<lambda>d. d * k) (axis_spans F cs)"
proof -
  have "py_max (map (\<lambda>c. vidx (mat_vec F c) i) (map (\<lambda>c. vscale c k) cs))
          - py_min (map (\<lambda>c. vidx (mat_vec F c) i) (map (\<lambda>c. vscale c k) cs))
        = (py_max (map (\<lambda>c. vidx (mat_vec F c) i) cs)
          - py_min (map (\<lambda>c. vidx (mat_vec F c) i) cs)) * k" for i
  proof -
    let ?b = "(1 - k) * vidx (mat_vec F (0, 0, 0)) i"
    let ?xs = "map (\<lambda>c. vidx (mat_vec F c) i) cs"
    have eq: "map (\<lambda>c. vidx (mat_vec F c) i) (map (\<lambda>c. vscale c k) cs) =
              map (\<lambda>x. k * x + ?b) ?xs"
      by (simp add: comp_def mat_vec_vscale [of F _ k i])
    have ne: "?xs \<noteq> []" using assms by simp
    show ?thesis
      unfolding eq
      using py_max_affine [OF ne assms(2), of ?b] py_min_affine [OF ne assms(2), of ?b]
      by (simp add: algebra_simps)
  qed
  then show ?thesis by (simp add: axis_spans_def)
qed

text \<open>The world matrix applied to a corner is the frame applied to the scaled corner.\<close>

lemma axis_spans_world_matrix:
  "axis_spans (world_matrix pw obj) cs =
     axis_spans (world_frame pw obj) (map (vmul (obj_scale obj)) cs)"
  by (simp add: axis_spans_def mat_vec_world_matrix comp_def)

lemma axis_spans_fst:
  assumes "cs \<noteq> []"
  shows "axis_spans (A, t) cs = axis_spans (A, t') cs"
proof -
  have "map (\<lambda>c. vadd c (0, 0, 0)) cs = cs"
    by (induction cs) (auto simp: vadd_def)
  with axis_spans_translation [OF assms, of A t "(0, 0, 0)" t'] show ?thesis by simp
qed

subsection \<open>The box around a mesh\<close>

lemma box_corners_nonempty [simp]: "box_corners vs \<noteq> []"
  by (simp add: box_corners_def Let_def)

lemma box_corners_set:
  assumes "vs \<noteq> []"
  shows "set (box_corners vs) =
           {py_min (map (\<lambda>v. vidx v 0) vs), py_max (map (\<lambda>v. vidx v 0) vs)} \<times>
           {py_min (map (\<lambda>v. vidx v 1) vs), py_max (map (\<lambda>v. vidx v 1) vs)} \<times>
           {py_min (map (\<lambda>v. vidx v 2) vs), py_max (map (\<lambda>v. vidx v 2) vs)}"
  using assms by (auto simp: box_corners_def Let_def)

lemma vmul_product:
  "vmul (a, b, c) ` (X \<times> Y \<times> Z) = ((\<lambda>x. a * x) ` X) \<times> ((\<lambda>y. b * y) ` Y) \<times> ((\<lambda>z. c * z) ` Z)"
  by (auto simp: vmul_def image_iff)

lemma scaled_bounds:
  assumes "xs \<noteq> []"
  shows "{py_min (map (\<lambda>x. k * x) xs), py_max (map (\<lambda>x. k * x) xs)} =
         (\<lambda>x. k * x) ` {py_min xs, py_max xs}"
proof (cases "0 \<le> k")
  case True
  with py_min_affine [OF assms True, of 0] py_max_affine [OF assms True, of 0]
  show ?thesis by simp
next
  case False
  then have "k \<le> 0" by simp
  with py_min_neg [OF assms this] py_max_neg [OF assms this]
  show ?thesis by auto
qed

lemma vidx_vmul: "vidx (vmul s v) i = vidx s i * vidx v i"
  by (cases s, cases v) (simp add: vmul_def vidx_def)

text \<open>Scaling the vertices along the axes scales the box: the same corners, as a set.\<close>

lemma box_corners_vmul: "set (box_corners (map (vmul s) vs)) = vmul s ` set (box_corners vs)"
proof (cases "vs = []")
  case True
  then show ?thesis by (cases s) (simp add: box_corners_def vmul_def)
next
  case False
  obtain a b c where s: "s = (a, b, c)" by (metis prod_cases3)
  have axis: "{py_min (map (\<lambda>v. vidx v i) (map (vmul s) vs)),
               py_max (map (\<lambda>v. vidx v i) (map (vmul s) vs))} =
              (\<lambda>x. vidx s i * x) ` {py_min (map (\<lambda>v. vidx v i) vs), py_max (map (\<lambda>v. vidx v i) vs)}"
    for i
  proof -
    have "map (\<lambda>v. vidx v i) (map (vmul s) vs) = map (\<lambda>x. vidx s i * x) (map (\<lambda>v. vidx v i) vs)"
      by (simp add: comp_def vidx_vmul)
    moreover have "map (\<lambda>v. vidx v i) vs \<noteq> []" using False by simp
    ultimately show ?thesis using scaled_bounds by metis
  qed
  have ne: "map (vmul s) vs \<noteq> []" using False by simp
  show ?thesis
    unfolding box_corners_set [OF ne] box_corners_set [OF False] axis
    by (simp add: s vmul_product vidx_def vmul_def)
qed

text \<open>Shifting the vertices shifts the box, corner by corner.\<close>

lemma vidx_vsub: "vidx (vsub v c) i = vidx v i - vidx c i"
  by (cases v, cases c) (simp add: vsub_def vidx_def)

lemma py_min_vsub:
  assumes "vs \<noteq> []"
  shows "py_min (map (\<lambda>v. vidx v i) (map (\<lambda>v. vsub v c) vs)) =
         py_min (map (\<lambda>v. vidx v i) vs) - vidx c i"
proof -
  have h: "map (\<lambda>v. vidx v i) (map (\<lambda>v. vsub v c) vs) =
        map (\<lambda>x. 1 * x + (- vidx c i)) (map (\<lambda>v. vidx v i) vs)"
    by (simp add: comp_def vidx_vsub)
  have "map (\<lambda>v. vidx v i) vs \<noteq> []" using assms by simp
  then show ?thesis
    unfolding h using py_min_affine [of "map (\<lambda>v. vidx v i) vs" 1 "- vidx c i"] by simp
qed

lemma py_max_vsub:
  assumes "vs \<noteq> []"
  shows "py_max (map (\<lambda>v. vidx v i) (map (\<lambda>v. vsub v c) vs)) =
         py_max (map (\<lambda>v. vidx v i) vs) - vidx c i"
proof -
  have h: "map (\<lambda>v. vidx v i) (map (\<lambda>v. vsub v c) vs) =
        map (\<lambda>x. 1 * x + (- vidx c i)) (map (\<lambda>v. vidx v i) vs)"
    by (simp add: comp_def vidx_vsub)
  have "map (\<lambda>v. vidx v i) vs \<noteq> []" using assms by simp
  then show ?thesis
    unfolding h using py_max_affine [of "map (\<lambda>v. vidx v i) vs" 1 "- vidx c i"] by simp
qed

lemma box_corners_vsub:
  assumes ne: "vs \<noteq> []"
  shows "box_corners (map (\<lambda>v. vsub v c) vs) = map (\<lambda>k. vsub k c) (box_corners vs)"
proof -
  obtain cx cy cz where c: "c = (cx, cy, cz)" by (metis prod_cases3)
  show ?thesis
    using ne
    by (simp only: box_corners_def Let_def py_min_vsub [OF ne] py_max_vsub [OF ne])
       (simp add: c vsub_def vidx_def)
qed

text \<open>The mean of the eight corners of a box is its midpoint.\<close>

lemma box_corners_center:
  "vs \<noteq> [] \<Longrightarrow>
   vdiv (fold (\<lambda>c acc. vadd acc c) (box_corners vs) (0, 0, 0)) 8 =
     ((py_min (map (\<lambda>v. vidx v 0) vs) + py_max (map (\<lambda>v. vidx v 0) vs)) / 2,
      (py_min (map (\<lambda>v. vidx v 1) vs) + py_max (map (\<lambda>v. vidx v 1) vs)) / 2,
      (py_min (map (\<lambda>v. vidx v 2) vs) + py_max (map (\<lambda>v. vidx v 2) vs)) / 2)"
  by (simp add: box_corners_def Let_def vadd_def vdiv_def)

subsection \<open>Scaling one object\<close>

lemma spans_of_evaluated:
  assumes ev: "evaluated_up_to_translation pw obj" and ne: "bound_box obj \<noteq> []"
  shows "world_spans obj =
           axis_spans (world_frame pw obj)
             (map (vmul (obj_scale obj)) (bound_box (depsgraph_object pw obj)))"
proof -
  from ev obtain d t where
    mw: "matrix_world obj = (fst (world_matrix pw obj), t)" and
    bb: "bound_box obj = map (\<lambda>c. vadd c d) (bound_box (depsgraph_object pw obj))"
    unfolding evaluated_up_to_translation_def by blast
  from ne bb have B: "bound_box (depsgraph_object pw obj) \<noteq> []" by auto
  have "world_spans obj =
          axis_spans (fst (world_matrix pw obj), t)
            (map (\<lambda>c. vadd c d) (bound_box (depsgraph_object pw obj)))"
    unfolding world_spans_def mw using bb by simp
  also have "\<dots> = axis_spans (fst (world_matrix pw obj), snd (world_matrix pw obj))
                     (bound_box (depsgraph_object pw obj))"
    by (rule axis_spans_translation [OF B])
  also have "\<dots> = axis_spans (world_frame pw obj)
                     (map (vmul (obj_scale obj)) (bound_box (depsgraph_object pw obj)))"
    by (simp add: axis_spans_world_matrix)
  finally show ?thesis .
qed

lemma evaluated_box_nonempty:
  assumes "evaluated_up_to_translation pw obj" and "bound_box obj \<noteq> []"
  shows "bound_box (depsgraph_object pw obj) \<noteq> []"
  using assms unfolding evaluated_up_to_translation_def by auto

lemma world_spans_depsgraph:
  "world_spans (depsgraph_object pw obj) =
     axis_spans (world_frame pw obj)
       (map (vmul (obj_scale obj)) (bound_box (depsgraph_object pw obj)))"
  by (simp add: world_spans_def depsgraph_object_def axis_spans_world_matrix)

text \<open>Multiplying the scale by \<open>f\<close> multiplies the three extents by \<open>f\<close>.\<close>

lemma rescaled_spans:
  assumes B: "bound_box (depsgraph_object pw obj) \<noteq> []" and f: "0 \<le> f"
  shows "world_spans (depsgraph_object pw (obj\<lparr>obj_scale := vscale (obj_scale obj) f\<rparr>)) =
           map (\<lambda>d. d * f)
             (axis_spans (world_frame pw obj)
                (map (vmul (obj_scale obj)) (bound_box (depsgraph_object pw obj))))"
proof -
  let ?B = "bound_box (depsgraph_object pw obj)"
  have same: "bound_box (depsgraph_object pw (obj\<lparr>obj_scale := vscale (obj_scale obj) f\<rparr>)) = ?B"
    by (simp add: depsgraph_object_def split: option.splits)
  have eq: "map (vmul (vscale (obj_scale obj) f)) ?B =
            map (\<lambda>c. vscale c f) (map (vmul (obj_scale obj)) ?B)"
    by (simp add: vmul_vscale)
  have ne: "map (vmul (obj_scale obj)) ?B \<noteq> []" using B by simp
  have "world_spans (depsgraph_object pw (obj\<lparr>obj_scale := vscale (obj_scale obj) f\<rparr>)) =
          axis_spans (world_frame pw obj) (map (vmul (vscale (obj_scale obj) f)) ?B)"
    unfolding world_spans_depsgraph same by simp
  also have "\<dots> = axis_spans (world_frame pw obj)
                       (map (\<lambda>c. vscale c f) (map (vmul (obj_scale obj)) ?B))"
    unfolding eq ..
  also have "\<dots> = map (\<lambda>d. d * f) (axis_spans (world_frame pw obj) (map (vmul (obj_scale obj)) ?B))"
    by (rule axis_spans_scaled [OF ne f])
  finally show ?thesis .
qed

text \<open>Baking a scale into the vertices leaves the extents as they are.\<close>

lemma vertex_scale_vmul: "(\<lambda>(x, y, z). (x * sx, y * sy, z * sz)) = vmul (sx, sy, sz)"
  by (auto simp: vmul_def fun_eq_iff mult.commute)

lemma vmul_unit [simp]: "vmul (1, 1, 1) = (\<lambda>v. v)"
  by (auto simp: vmul_def fun_eq_iff)

lemma baked_spans:
  assumes mesh: "obj_type obj = ''MESH''" and data: "obj_data obj = Some vs"
  shows "world_spans (depsgraph_object pw
            (obj\<lparr>obj_data := Some (map (vmul (obj_scale obj)) vs), obj_scale := (1, 1, 1)\<rparr>)) =
         world_spans (depsgraph_object pw obj)"
proof -
  have "world_spans (depsgraph_object pw
            (obj\<lparr>obj_data := Some (map (vmul (obj_scale obj)) vs), obj_scale := (1, 1, 1)\<rparr>)) =
        axis_spans (world_frame pw obj) (box_corners (map (vmul (obj_scale obj)) vs))"
    unfolding world_spans_depsgraph using mesh by (simp add: depsgraph_object_def)
  also have "\<dots> = axis_spans (world_frame pw obj) (map (vmul (obj_scale obj)) (box_corners vs))"
    by (rule axis_spans_set) (simp_all add: box_corners_vmul)
  also have "\<dots> = world_spans (depsgraph_object pw obj)"
    unfolding world_spans_depsgraph using mesh data by (simp add: depsgraph_object_def)
  finally show ?thesis .
qed

text \<open>The loop body on an object of longest extent \<open>L \<noteq> 0\<close>, case by case.\<close>

lemma apply_scale_reference_obj_cases:
  assumes "fst (get_longest_axis_size obj) = L" and "L \<noteq> 0"
  shows "apply_scale_reference_obj R bake obj =
           (if bake \<and> obj_type obj = ''MESH'' \<and> obj_data obj \<noteq> None
            then obj\<lparr>obj_scale := vscale (obj_scale obj) (R / L)\<rparr>
                    \<lparr>obj_data := Some (map (vmul (vscale (obj_scale obj) (R / L))) (the (obj_data obj))),
                     obj_scale := (1, 1, 1)\<rparr>
            else obj\<lparr>obj_scale := vscale (obj_scale obj) (R / L)\<rparr>)"
proof -
  obtain sx sy sz where s: "vscale (obj_scale obj) (R / L) = (sx, sy, sz)" by (metis prod_cases3)
  show ?thesis
    using assms
    by (auto simp: apply_scale_reference_obj_def Let_def s vertex_scale_vmul split: option.splits)
qed

lemma world_spans_nonneg: "d \<in> set (world_spans obj) \<Longrightarrow> bound_box obj \<noteq> [] \<Longrightarrow> 0 \<le> d"
proof -
  assume d: "d \<in> set (world_spans obj)" and ne: "bound_box obj \<noteq> []"
  have "py_min xs \<le> py_max xs" if "xs \<noteq> []" for xs :: "real list"
  proof -
    from that have "hd xs \<in> set xs" by simp
    then have "Min (set xs) \<le> hd xs" "hd xs \<le> Max (set xs)" by simp_all
    then show ?thesis using that by (simp add: py_min_Min py_max_Max)
  qed
  then show ?thesis using d ne by (auto simp: world_spans_def axis_spans_def)
qed

lemma rescaled_longest:
  assumes ev: "evaluated_up_to_translation pw obj" and ne: "bound_box obj \<noteq> []"
    and L: "fst (get_longest_axis_size obj) = L" and pos: "0 < L" "0 < R"
  shows "world_spans (depsgraph_object pw (apply_scale_reference_obj R bake obj)) =
           map (\<lambda>d. d * (R / L)) (world_spans obj)"
    and "fst (get_longest_axis_size (depsgraph_object pw (apply_scale_reference_obj R bake obj))) = R"
proof -
  let ?f = "R / L"
  let ?obj1 = "obj\<lparr>obj_scale := vscale (obj_scale obj) ?f\<rparr>"
  from pos have f: "0 \<le> ?f" by simp
  from pos have L0: "L \<noteq> 0" by simp
  have B: "bound_box (depsgraph_object pw obj) \<noteq> []"
    by (rule evaluated_box_nonempty [OF ev ne])
  have one: "world_spans (depsgraph_object pw ?obj1) = map (\<lambda>d. d * ?f) (world_spans obj)"
    using rescaled_spans [OF B f] spans_of_evaluated [OF ev ne] by simp
  show spans: "world_spans (depsgraph_object pw (apply_scale_reference_obj R bake obj)) =
                 map (\<lambda>d. d * ?f) (world_spans obj)"
  proof (cases "bake \<and> obj_type obj = ''MESH'' \<and> obj_data obj \<noteq> None")
    case False
    then show ?thesis
      using apply_scale_reference_obj_cases [OF L L0, of R bake] one by auto
  next
    case True
    then obtain vs where vs: "obj_data obj = Some vs" by auto
    have "apply_scale_reference_obj R bake obj =
            ?obj1\<lparr>obj_data := Some (map (vmul (obj_scale ?obj1)) vs), obj_scale := (1, 1, 1)\<rparr>"
      using apply_scale_reference_obj_cases [OF L L0, of R bake] True vs by simp
    moreover have "obj_type ?obj1 = ''MESH''" "obj_data ?obj1 = Some vs"
      using True vs by simp_all
    ultimately show ?thesis using baked_spans [of ?obj1 vs pw] one by simp
  qed
  have "world_spans obj \<noteq> []" by (simp add: world_spans_def axis_spans_def)
  then have "py_max (map (\<lambda>d. d * ?f) (world_spans obj)) = py_max (world_spans obj) * ?f"
    using f by (rule py_max_scaled)
  then show "fst (get_longest_axis_size (depsgraph_object pw (apply_scale_reference_obj R bake obj))) = R"
    using spans L L0 by (simp add: get_longest_axis_size_spans)
qed

text \<open>
  The loop raises at the first target that has been removed, and not at all when every
  target is an object of the scene; over targets listed once it applies its body once
  to each of them.
\<close>

lemma get_object_update_object:
  "get_object (update_object i f s) j =
     (if j = i then map_option f (get_object s j) else get_object s j)"
proof -
  have "map_of (map (\<lambda>(k, ob). if k = i then (k, f ob) else (k, ob)) xs) j =
          (if j = i then map_option f (map_of xs j) else map_of xs j)" for xs
    by (induction xs) auto
  then show ?thesis by (simp add: get_object_def update_object_def)
qed

lemma get_object_fold_update:
  "distinct objects \<Longrightarrow>
   get_object (fold (\<lambda>i. update_object i f) objects s) j =
     (if j \<in> set objects then map_option f (get_object s j) else get_object s j)"
  by (induction objects arbitrary: s) (auto simp: get_object_update_object)

lemma scale_targets_present:
  "\<forall>j \<in> set objects. get_object s j \<noteq> None \<Longrightarrow>
   scale_targets R bake objects s =
     (None, fold (\<lambda>i. update_object i (apply_scale_reference_obj R bake)) objects s)"
proof (induction objects arbitrary: s)
  case Nil
  then show ?case by simp
next
  case (Cons i objects)
  let ?s1 = "update_object i (apply_scale_reference_obj R bake) s"
  from Cons.prems have "\<forall>j \<in> set objects. get_object ?s1 j \<noteq> None"
    by (auto simp: get_object_update_object)
  from Cons.IH [OF this] Cons.prems show ?case by (auto split: option.splits)
qed

lemma scale_targets_removed:
  "\<forall>j \<in> set before. get_object s j \<noteq> None \<Longrightarrow> get_object s i = None \<Longrightarrow>
   scale_targets R bake (before @ i # rest) s =
     (Some (ReferenceError ''StructRNA of type Object has been removed''),
      fold (\<lambda>i. update_object i (apply_scale_reference_obj R bake)) before s)"
proof (induction before arbitrary: s)
  case Nil
  then show ?case by simp
next
  case (Cons k before)
  let ?s1 = "update_object k (apply_scale_reference_obj R bake) s"
  from Cons.prems have "\<forall>j \<in> set before. get_object ?s1 j \<noteq> None" "get_object ?s1 i = None"
    by (auto simp: get_object_update_object)
  from Cons.IH [OF this] Cons.prems show ?case by (auto split: option.splits)
qed

text \<open>An object without box corners has no extent.\<close>

lemma no_box_no_extent: "bound_box obj = [] \<Longrightarrow> fst (get_longest_axis_size obj) = 0"
  by (simp add: get_longest_axis_size_spans world_spans_def axis_spans_def py_max_def py_min_def)

subsection \<open>Scale matching\<close>

text \<open>
  \<^verbatim>\<open>apply_scale_reference\<close> writes the scale (and, when baking, the vertices) and
  nothing else: the cached world matrix and box, from which the longest extent is
  read, are the host's to refresh.
\<close>

lemma apply_scale_reference_obj_cache:
  "matrix_world (apply_scale_reference_obj R bake obj) = matrix_world obj \<and>
   bound_box (apply_scale_reference_obj R bake obj) = bound_box obj"
  by (simp add: apply_scale_reference_obj_def Let_def split: option.splits prod.splits)

lemma get_longest_axis_size_cache:
  "get_longest_axis_size (apply_scale_reference_obj R bake obj) = get_longest_axis_size obj"
  by (simp add: get_longest_axis_size_def apply_scale_reference_obj_cache)

lemma evaluated_up_to_translation_evaluated:
  "evaluated pw obj \<Longrightarrow> evaluated_up_to_translation pw obj"
proof -
  assume "evaluated pw obj"
  then have ev: "depsgraph_object pw obj = obj" by (simp add: evaluated_def)
  have "matrix_world (depsgraph_object pw obj) = world_matrix pw obj"
    by (simp add: depsgraph_object_def)
  then have "matrix_world obj = world_matrix pw obj" using ev by simp
  then have "matrix_world obj = (fst (world_matrix pw obj), snd (matrix_world obj)) \<and>
        bound_box obj = map (\<lambda>c. vadd c (0, 0, 0)) (bound_box (depsgraph_object pw obj))"
    using ev by (simp add: vadd_def)
  then show ?thesis unfolding evaluated_up_to_translation_def by blast
qed

text \<open>
  Claim C2, as the code has it. Take a call whose targets are all objects of the scene,
  each listed once; let \<open>R\<close> and \<open>L\<close> be the longest world-axis lengths that
  \<^verbatim>\<open>get_longest_axis_size\<close> reads for the reference and for a target. The call raises
  nothing. If \<open>R = 0\<close> the scene is left as it is, and a target with \<open>L = 0\<close> is. If
  \<open>R > 0\<close> and \<open>L > 0\<close>, the factor \<open>R / L\<close> multiplies all three components of the
  target's scale (when baking a mesh that has data, the vertices take the scaled
  components and the scale becomes \<open>(1, 1, 1)\<close>); the cached world matrix and box of
  the target are left as they were, so \<^verbatim>\<open>get_longest_axis_size\<close> still reads \<open>L\<close>
  after the call; and if these cached values were those of the target's transform and
  mesh up to a translation, then once the host has evaluated the target again, under
  the same parent matrix, its extents along the three world axes are the former ones
  times \<open>R / L\<close> and the longest is exactly \<open>R\<close>.
\<close>

theorem scale_matching:
  assumes "get_object s ref_obj = Some r"
    and "\<forall>j \<in> set objects. get_object s j \<noteq> None"
    and "distinct objects"
    and "i \<in> set objects" and "get_object s i = Some obj"
    and "R = fst (get_longest_axis_size r)" and "L = fst (get_longest_axis_size obj)"
    and "s' = snd (apply_scale_reference objects ref_obj bake s)"
  shows "fst (apply_scale_reference objects ref_obj bake s) = None \<and>
         (R = 0 \<longrightarrow> s' = s) \<and>
         (L = 0 \<longrightarrow> get_object s' i = Some obj) \<and>
         (0 < R \<and> 0 < L \<longrightarrow>
            (\<exists>obj'. get_object s' i = Some obj' \<and>
               (if bake \<and> obj_type obj = ''MESH'' \<and> obj_data obj \<noteq> None
                then obj_scale obj' = (1, 1, 1) \<and>
                     obj_data obj' =
                       map_option (map (vmul (vscale (obj_scale obj) (R / L)))) (obj_data obj)
                else obj_scale obj' = vscale (obj_scale obj) (R / L) \<and>
                     obj_data obj' = obj_data obj) \<and>
               matrix_world obj' = matrix_world obj \<and> bound_box obj' = bound_box obj \<and>
               fst (get_longest_axis_size obj') = L \<and>
               (evaluated_up_to_translation pw obj \<longrightarrow>
                  world_spans (depsgraph_object pw obj') =
                    map (\<lambda>d. d * (R / L)) (world_spans obj) \<and>
                  fst (get_longest_axis_size (depsgraph_object pw obj')) = R)))"
proof -
  let ?body = "apply_scale_reference_obj R bake"
  have run: "apply_scale_reference objects ref_obj bake s =
               (None, if R = 0 then s else fold (\<lambda>i. update_object i ?body) objects s)"
    using assms(1,6) scale_targets_present [OF assms(2), of R bake]
    by (simp add: apply_scale_reference_def Let_def)
  then have raised: "fst (apply_scale_reference objects ref_obj bake s) = None" by simp
  from run assms(8) have s': "s' = (if R = 0 then s else fold (\<lambda>i. update_object i ?body) objects s)"
    by simp
  then have noop: "R = 0 \<longrightarrow> s' = s" by simp
  have target: "R \<noteq> 0 \<Longrightarrow> get_object s' i = Some (?body obj)"
    using s' assms(3,4,5) by (simp add: get_object_fold_update)
  have skip: "L = 0 \<longrightarrow> get_object s' i = Some obj"
  proof
    assume "L = 0"
    then have "?body obj = obj" using assms(7) by (simp add: apply_scale_reference_obj_def)
    then show "get_object s' i = Some obj" using target s' assms(5) by (cases "R = 0") simp_all
  qed
  have match: "\<exists>obj'. get_object s' i = Some obj' \<and>
               (if bake \<and> obj_type obj = ''MESH'' \<and> obj_data obj \<noteq> None
                then obj_scale obj' = (1, 1, 1) \<and>
                     obj_data obj' =
                       map_option (map (vmul (vscale (obj_scale obj) (R / L)))) (obj_data obj)
                else obj_scale obj' = vscale (obj_scale obj) (R / L) \<and>
                     obj_data obj' = obj_data obj) \<and>
               matrix_world obj' = matrix_world obj \<and> bound_box obj' = bound_box obj \<and>
               fst (get_longest_axis_size obj') = L \<and>
               (evaluated_up_to_translation pw obj \<longrightarrow>
                  world_spans (depsgraph_object pw obj') =
                    map (\<lambda>d. d * (R / L)) (world_spans obj) \<and>
                  fst (get_longest_axis_size (depsgraph_object pw obj')) = R)"
    if pos: "0 < R" "0 < L"
  proof -
    have L: "fst (get_longest_axis_size obj) = L" using assms(7) by simp
    from pos have L0: "L \<noteq> 0" by simp
    have ne: "bound_box obj \<noteq> []" using no_box_no_extent [of obj] L L0 by auto
    have "get_object s' i = Some (?body obj)" using target pos by simp
    moreover have "if bake \<and> obj_type obj = ''MESH'' \<and> obj_data obj \<noteq> None
                then obj_scale (?body obj) = (1, 1, 1) \<and>
                     obj_data (?body obj) =
                       map_option (map (vmul (vscale (obj_scale obj) (R / L)))) (obj_data obj)
                else obj_scale (?body obj) = vscale (obj_scale obj) (R / L) \<and>
                     obj_data (?body obj) = obj_data obj"
      using apply_scale_reference_obj_cases [OF L L0, of R bake] by auto
    moreover have "matrix_world (?body obj) = matrix_world obj \<and> bound_box (?body obj) = bound_box obj"
      by (rule apply_scale_reference_obj_cache)
    moreover have "fst (get_longest_axis_size (?body obj)) = L"
      using L by (simp add: get_longest_axis_size_cache)
    moreover have "evaluated_up_to_translation pw obj \<longrightarrow>
                  world_spans (depsgraph_object pw (?body obj)) =
                    map (\<lambda>d. d * (R / L)) (world_spans obj) \<and>
                  fst (get_longest_axis_size (depsgraph_object pw (?body obj))) = R"
      using rescaled_longest [OF _ ne L pos(2) pos(1), of pw bake] by blast
    ultimately show ?thesis by blast
  qed
  from raised noop skip match show ?thesis by blast
qed

text \<open>
  In \<open>scale_scene\<close> the box \<open>A\<close>, of extents 2, 4 and 8, is matched to the reference of
  longest extent 16 with baking: the factor is 2, the scale is \<open>(1, 1, 1)\<close>, the cached
  measure is still 8, and once evaluated the extents are 4, 8 and 16. The empty is left
  as it is when it is a target, and the scene is when the empty is the reference.
\<close>

lemma box_object_evaluated: "evaluated None (box_object name)"
  by (simp add: evaluated_def depsgraph_object_def box_object_def box_corners_def
      world_matrix_def matrix_basis_def identity_matrix_def vmul_def vidx_def
      py_min_def py_max_def)

lemma box_object_spans: "world_spans (box_object name) = [2, 4, 8]"
  by (simp add: world_spans_def axis_spans_def box_object_def identity_matrix_def
      mat_vec_def vidx_def py_min_def py_max_def)

lemma reference_box_spans: "world_spans reference_box = [4, 8, 16]"
  by (simp add: world_spans_def axis_spans_def reference_box_def box_object_def
      mat_vec_def vidx_def py_min_def py_max_def)

lemma flat_object_spans: "world_spans flat_object = [0, 0, 0]"
  by (simp add: world_spans_def axis_spans_def flat_object_def identity_matrix_def
      mat_vec_def vidx_def py_min_def py_max_def numeral_eq_Suc)

lemma reference_box_longest: "fst (get_longest_axis_size reference_box) = 16"
  by (simp add: get_longest_axis_size_spans reference_box_spans py_max_def)

lemma box_object_longest: "fst (get_longest_axis_size (box_object name)) = 8"
  by (simp add: get_longest_axis_size_spans box_object_spans py_max_def)

lemma scale_scene_objects:
  "get_object scale_scene 0 = Some reference_box"
  "get_object scale_scene 1 = Some (box_object ''A'')"
  "get_object scale_scene 2 = Some flat_object"
  "get_object scale_scene 3 = Some stale_box"
  "get_object scale_scene 4 = Some child_of_A"
  "get_object scale_scene 7 = None"
  by (simp_all add: get_object_def scale_scene_def)

theorem scale_matching_witness:
  "fst (apply_scale_reference [1] 0 True scale_scene) = None \<and>
   (\<exists>obj'. get_object (snd (apply_scale_reference [1] 0 True scale_scene)) 1 = Some obj' \<and>
      obj_scale obj' = (1, 1, 1) \<and>
      fst (get_longest_axis_size obj') = 8 \<and>
      world_spans (depsgraph_object None obj') = [4, 8, 16] \<and>
      fst (get_longest_axis_size (depsgraph_object None obj')) = 16) \<and>
   get_object (snd (apply_scale_reference [1, 2] 0 False scale_scene)) 2 = Some flat_object \<and>
   snd (apply_scale_reference [1, 2] 2 False scale_scene) = scale_scene"
proof (intro conjI)
  note r = scale_scene_objects(1) and t = scale_scene_objects(2) and e = scale_scene_objects(3)
  have R: "16 = fst (get_longest_axis_size reference_box)"
    by (simp add: reference_box_longest)
  have L: "8 = fst (get_longest_axis_size (box_object ''A''))"
    by (simp add: box_object_longest)
  have Z: "0 = fst (get_longest_axis_size flat_object)"
    by (simp add: get_longest_axis_size_spans flat_object_spans py_max_def)
  have one: "\<forall>j \<in> set [1::nat]. get_object scale_scene j \<noteq> None"
    using t by simp
  have two: "\<forall>j \<in> set [1::nat, 2]. get_object scale_scene j \<noteq> None"
    using t e by simp
  have ev: "evaluated_up_to_translation None (box_object ''A'')"
    by (rule evaluated_up_to_translation_evaluated [OF box_object_evaluated])
  have mesh: "obj_type (box_object ''A'') = ''MESH'' \<and> obj_data (box_object ''A'') \<noteq> None"
    by (simp add: box_object_def)
  from scale_matching [OF r one _ _ t R L refl, of True None]
  show "fst (apply_scale_reference [1] 0 True scale_scene) = None" by simp
  from scale_matching [OF r one _ _ t R L refl, of True None] ev mesh
  show "\<exists>obj'. get_object (snd (apply_scale_reference [1] 0 True scale_scene)) 1 = Some obj' \<and>
      obj_scale obj' = (1, 1, 1) \<and>
      fst (get_longest_axis_size obj') = 8 \<and>
      world_spans (depsgraph_object None obj') = [4, 8, 16] \<and>
      fst (get_longest_axis_size (depsgraph_object None obj')) = 16"
    by (simp add: box_object_spans) blast
  from scale_matching [OF r two _ _ e R Z refl, of False None]
  show "get_object (snd (apply_scale_reference [1, 2] 0 False scale_scene)) 2 = Some flat_object"
    by simp
  from scale_matching [OF e two _ _ t Z L refl, of False None]
  show "snd (apply_scale_reference [1, 2] 2 False scale_scene) = scale_scene"
    by simp
qed
text \<open>
  The claim as stated fails, on five counts. The reference has longest extent 16 and the
  box \<open>A\<close> longest extent 8. (1) After the call \<^verbatim>\<open>get_longest_axis_size\<close> still reads 8
  for \<open>A\<close>: the cached matrix is not refreshed. (2) Listed twice, \<open>A\<close> is scaled twice,
  to 32 once evaluated. (3) A child of \<open>A\<close>, evaluated and of longest extent 8, listed
  after its parent: both are scaled by 2 and the child, evaluated under the scaled
  parent, has longest extent 32. (4) A box whose cached matrix was out of date before
  the call is read at 8 and ends at 32. (5) A target that has been removed raises
  \<^verbatim>\<open>ReferenceError\<close>, and the target after it is not scaled.
\<close>

lemma scaled_by_two:
  "fst (get_longest_axis_size obj) = 8 \<Longrightarrow>
   apply_scale_reference_obj 16 False obj = obj\<lparr>obj_scale := vscale (obj_scale obj) 2\<rparr>"
  using apply_scale_reference_obj_cases [of obj 8 16 False] by simp

lemma stale_box_longest: "fst (get_longest_axis_size stale_box) = 8"
  using box_object_longest [of "''stale''"]
  by (simp add: get_longest_axis_size_def stale_box_def)

lemma child_of_A_longest: "fst (get_longest_axis_size child_of_A) = 8"
  using box_object_longest [of "''child of A''"]
  by (simp add: get_longest_axis_size_def child_of_A_def)

lemma scaled_once:
  "apply_scale_reference_obj 16 False (box_object name) = (box_object name)\<lparr>obj_scale := (2, 2, 2)\<rparr>"
  "apply_scale_reference_obj 16 False child_of_A = child_of_A\<lparr>obj_scale := (2, 2, 2)\<rparr>"
  "apply_scale_reference_obj 16 False stale_box = stale_box\<lparr>obj_scale := (4, 4, 4)\<rparr>"
  using scaled_by_two [OF box_object_longest, of name] scaled_by_two [OF child_of_A_longest]
    scaled_by_two [OF stale_box_longest]
  by (simp_all add: box_object_def child_of_A_def stale_box_def vscale_def)

lemma scaled_twice:
  "apply_scale_reference_obj 16 False (apply_scale_reference_obj 16 False (box_object name)) =
     (box_object name)\<lparr>obj_scale := (4, 4, 4)\<rparr>"
proof -
  have "fst (get_longest_axis_size (apply_scale_reference_obj 16 False (box_object name))) = 8"
    by (simp add: get_longest_axis_size_cache box_object_longest)
  from scaled_by_two [OF this] show ?thesis
    by (simp add: scaled_once) (simp add: box_object_def vscale_def)
qed

lemma box_scaled_four_longest:
  "fst (get_longest_axis_size (depsgraph_object None ((box_object name)\<lparr>obj_scale := (4, 4, 4)\<rparr>))) = 32"
  by (simp add: get_longest_axis_size_spans world_spans_def axis_spans_def depsgraph_object_def
      box_object_def box_corners_def world_matrix_def matrix_basis_def identity_matrix_def
      mat_vec_def vmul_def vidx_def py_min_def py_max_def Let_def)

lemma stale_scaled_longest:
  "fst (get_longest_axis_size (depsgraph_object None (stale_box\<lparr>obj_scale := (4, 4, 4)\<rparr>))) = 32"
  using box_scaled_four_longest [of "''stale''"] by (simp add: stale_box_def)

lemma child_evaluated: "depsgraph_object (Some (matrix_world (box_object ''A''))) child_of_A = child_of_A"
  by (simp add: depsgraph_object_def child_of_A_def box_object_def box_corners_def
      world_matrix_def matrix_basis_def mat_mul_def mat_vec_def identity_matrix_def
      vmul_def vsub_def vidx_def py_min_def py_max_def Let_def)

lemma child_scaled_longest:
  "fst (get_longest_axis_size
         (depsgraph_object (Some (world_matrix None ((box_object ''A'')\<lparr>obj_scale := (2, 2, 2)\<rparr>)))
            (child_of_A\<lparr>obj_scale := (2, 2, 2)\<rparr>))) = 32"
  by (simp add: get_longest_axis_size_spans world_spans_def axis_spans_def depsgraph_object_def
      child_of_A_def box_object_def box_corners_def world_matrix_def matrix_basis_def
      mat_mul_def identity_matrix_def mat_vec_def vmul_def vsub_def vidx_def
      py_min_def py_max_def Let_def)

lemma scale_scene_run:
  "\<forall>j \<in> set objects. get_object scale_scene j \<noteq> None \<Longrightarrow>
   apply_scale_reference objects 0 False scale_scene =
     (None, fold (\<lambda>i. update_object i (apply_scale_reference_obj 16 False)) objects scale_scene)"
  using scale_targets_present [of objects scale_scene 16 False]
  by (simp add: apply_scale_reference_def scale_scene_objects reference_box_longest)

theorem scale_matching_counterexample:
  "fst (get_longest_axis_size reference_box) = 16 \<and>
   fst (get_longest_axis_size (box_object ''A'')) = 8 \<and>
   get_object (snd (apply_scale_reference [1] 0 False scale_scene)) 1 =
     Some (apply_scale_reference_obj 16 False (box_object ''A'')) \<and>
   fst (get_longest_axis_size (apply_scale_reference_obj 16 False (box_object ''A''))) = 8 \<and>
   get_object (snd (apply_scale_reference [1, 1] 0 False scale_scene)) 1 =
     Some (apply_scale_reference_obj 16 False (apply_scale_reference_obj 16 False (box_object ''A''))) \<and>
   fst (get_longest_axis_size (depsgraph_object None
          (apply_scale_reference_obj 16 False
             (apply_scale_reference_obj 16 False (box_object ''A''))))) = 32 \<and>
   fst (get_longest_axis_size child_of_A) = 8 \<and>
   depsgraph_object (Some (matrix_world (box_object ''A''))) child_of_A = child_of_A \<and>
   get_object (snd (apply_scale_reference [1, 4] 0 False scale_scene)) 1 =
     Some (apply_scale_reference_obj 16 False (box_object ''A'')) \<and>
   get_object (snd (apply_scale_reference [1, 4] 0 False scale_scene)) 4 =
     Some (apply_scale_reference_obj 16 False child_of_A) \<and>
   fst (get_longest_axis_size
          (depsgraph_object
             (Some (world_matrix None (apply_scale_reference_obj 16 False (box_object ''A''))))
             (apply_scale_reference_obj 16 False child_of_A))) = 32 \<and>
   fst (get_longest_axis_size stale_box) = 8 \<and>
   get_object (snd (apply_scale_reference [3] 0 False scale_scene)) 3 =
     Some (apply_scale_reference_obj 16 False stale_box) \<and>
   fst (get_longest_axis_size (depsgraph_object None
          (apply_scale_reference_obj 16 False stale_box))) = 32 \<and>
   apply_scale_reference [7, 1] 0 False scale_scene =
     (Some (ReferenceError ''StructRNA of type Object has been removed''), scale_scene)"
proof (intro conjI)
  show "fst (get_longest_axis_size reference_box) = 16" by (rule reference_box_longest)
  show "fst (get_longest_axis_size (box_object ''A'')) = 8" by (rule box_object_longest)
  show "get_object (snd (apply_scale_reference [1] 0 False scale_scene)) 1 =
     Some (apply_scale_reference_obj 16 False (box_object ''A''))"
    using scale_scene_run [of "[1]"] scale_scene_objects(2)
    by (simp add: get_object_update_object)
  show "fst (get_longest_axis_size (apply_scale_reference_obj 16 False (box_object ''A''))) = 8"
    by (simp add: get_longest_axis_size_cache box_object_longest)
  show "get_object (snd (apply_scale_reference [1, 1] 0 False scale_scene)) 1 =
     Some (apply_scale_reference_obj 16 False (apply_scale_reference_obj 16 False (box_object ''A'')))"
    using scale_scene_run [of "[1, 1]"] scale_scene_objects(2)
    by (simp add: get_object_update_object)
  show "fst (get_longest_axis_size (depsgraph_object None
          (apply_scale_reference_obj 16 False
             (apply_scale_reference_obj 16 False (box_object ''A''))))) = 32"
    by (simp only: scaled_twice box_scaled_four_longest)
  show "fst (get_longest_axis_size child_of_A) = 8" by (rule child_of_A_longest)
  show "depsgraph_object (Some (matrix_world (box_object ''A''))) child_of_A = child_of_A"
    by (rule child_evaluated)
  show "get_object (snd (apply_scale_reference [1, 4] 0 False scale_scene)) 1 =
     Some (apply_scale_reference_obj 16 False (box_object ''A''))"
    using scale_scene_run [of "[1, 4]"] scale_scene_objects(2,5)
    by (simp add: get_object_update_object)
  show "get_object (snd (apply_scale_reference [1, 4] 0 False scale_scene)) 4 =
     Some (apply_scale_reference_obj 16 False child_of_A)"
    using scale_scene_run [of "[1, 4]"] scale_scene_objects(2,5)
    by (simp add: get_object_update_object)
  show "fst (get_longest_axis_size
          (depsgraph_object
             (Some (world_matrix None (apply_scale_reference_obj 16 False (box_object ''A''))))
             (apply_scale_reference_obj 16 False child_of_A))) = 32"
    by (simp only: scaled_once child_scaled_longest)
  show "fst (get_longest_axis_size stale_box) = 8" by (rule stale_box_longest)
  show "get_object (snd (apply_scale_reference [3] 0 False scale_scene)) 3 =
     Some (apply_scale_reference_obj 16 False stale_box)"
    using scale_scene_run [of "[3]"] scale_scene_objects(4)
    by (simp add: get_object_update_object)
  show "fst (get_longest_axis_size (depsgraph_object None
          (apply_scale_reference_obj 16 False stale_box))) = 32"
    by (simp only: scaled_once stale_scaled_longest)
  show "apply_scale_reference [7, 1] 0 False scale_scene =
     (Some (ReferenceError ''StructRNA of type Object has been removed''), scale_scene)"
    by (simp add: apply_scale_reference_def scale_scene_objects reference_box_longest)
qed

subsection \<open>Centring one object\<close>

lemma mat_vec_origin: "mat_vec M (0, 0, 0) = snd M"
proof -
  obtain A tx ty tz where "M = (A, (tx, ty, tz))" by (metis prod_cases3 surj_pair)
  then show ?thesis by (cases A) (simp add: mat_vec_def vidx_def)
qed

lemma vsub_origin: "map (\<lambda>v. vsub v (0, 0, 0)) vs = vs"
  by (induction vs) (auto simp: vsub_def)

text \<open>What \<^verbatim>\<open>set_origin_to_geometry\<close> does to an object whose cached box is centred.\<close>

lemma set_origin_centred:
  assumes "bbox_center obj = (0, 0, 0)"
  shows "set_origin_to_geometry obj =
           (if obj_type obj = ''MESH'' \<and> obj_data obj \<noteq> None \<and> obj_data obj \<noteq> Some []
            then obj\<lparr>obj_location := snd (matrix_world obj)\<rparr>
            else obj)"
proof -
  have c: "vdiv (fold (\<lambda>c acc. vadd acc c) (bound_box obj) (0, 0, 0)) 8 = (0, 0, 0)"
    using assms by (simp add: bbox_center_def)
  show ?thesis
    by (cases "obj_data obj")
       (auto simp: set_origin_to_geometry_def Let_def c mat_vec_origin vsub_origin)
qed

lemma snd_matrix_basis: "snd (matrix_basis obj) = obj_location obj"
  by (simp add: matrix_basis_def split: prod.splits)

lemma evaluated_fields:
  assumes "evaluated pw obj"
  shows "matrix_world obj = world_matrix pw obj"
    and "obj_type obj = ''MESH'' \<Longrightarrow> obj_data obj = Some vs \<Longrightarrow> bound_box obj = box_corners vs"
proof -
  from assms have ev: "depsgraph_object pw obj = obj" by (simp add: evaluated_def)
  have "matrix_world (depsgraph_object pw obj) = world_matrix pw obj"
    by (simp add: depsgraph_object_def)
  then show "matrix_world obj = world_matrix pw obj" using ev by simp
  assume "obj_type obj = ''MESH''" "obj_data obj = Some vs"
  then have "bound_box (depsgraph_object pw obj) = box_corners vs"
    by (simp add: depsgraph_object_def)
  then show "bound_box obj = box_corners vs" using ev by simp
qed

lemma evaluated_depsgraph_object [simp]: "evaluated pw (depsgraph_object pw obj)"
proof -
  have "world_matrix pw (depsgraph_object pw obj) = world_matrix pw obj"
    by (cases pw) (simp_all add: world_matrix_def matrix_basis_def depsgraph_object_def)
  then show ?thesis
    by (simp add: evaluated_def) (simp add: depsgraph_object_def split: option.splits)
qed

text \<open>The box the host computes around the shifted vertices is centred.\<close>

lemma shifted_box_centred:
  assumes ne: "vs \<noteq> []"
  shows "vdiv (fold (\<lambda>c acc. vadd acc c)
                 (box_corners (map (\<lambda>v. vsub v
                    (vdiv (fold (\<lambda>c acc. vadd acc c) (box_corners vs) (0, 0, 0)) 8)) vs))
                 (0, 0, 0)) 8 = (0, 0, 0)"
proof -
  let ?c = "vdiv (fold (\<lambda>c acc. vadd acc c) (box_corners vs) (0, 0, 0)) 8"
  have ne': "map (\<lambda>v. vsub v ?c) vs \<noteq> []" using ne by simp
  have c: "?c = ((py_min (map (\<lambda>v. vidx v 0) vs) + py_max (map (\<lambda>v. vidx v 0) vs)) / 2,
                 (py_min (map (\<lambda>v. vidx v 1) vs) + py_max (map (\<lambda>v. vidx v 1) vs)) / 2,
                 (py_min (map (\<lambda>v. vidx v 2) vs) + py_max (map (\<lambda>v. vidx v 2) vs)) / 2)"
    by (rule box_corners_center [OF ne])
  show ?thesis
    unfolding box_corners_center [OF ne'] py_min_vsub [OF ne] py_max_vsub [OF ne]
    unfolding c by (simp add: vidx_def)
qed

text \<open>
  Centring an evaluated object without parent, then letting the host evaluate it,
  gives an object that centring leaves as it is.
\<close>

lemma set_origin_then_evaluate_fixed:
  assumes ev: "evaluated None obj"
  shows "set_origin_to_geometry (depsgraph_object None (set_origin_to_geometry obj)) =
         depsgraph_object None (set_origin_to_geometry obj)"
proof (cases "obj_type obj = ''MESH'' \<and> obj_data obj \<noteq> None \<and> obj_data obj \<noteq> Some []")
  case False
  then have same: "set_origin_to_geometry obj = obj"
    by (auto simp: set_origin_to_geometry_def split: option.splits)
  from ev have "depsgraph_object None obj = obj" by (simp add: evaluated_def)
  with same show ?thesis by simp
next
  case True
  then obtain vs where mesh: "obj_type obj = ''MESH''" and vs: "obj_data obj = Some vs"
    and ne: "vs \<noteq> []" by auto
  let ?c = "vdiv (fold (\<lambda>c acc. vadd acc c) (box_corners vs) (0, 0, 0)) 8"
  let ?once = "depsgraph_object None (set_origin_to_geometry obj)"
  have bb: "bound_box obj = box_corners vs" by (rule evaluated_fields(2) [OF ev mesh vs])
  have moved: "set_origin_to_geometry obj =
                 obj\<lparr>obj_data := Some (map (\<lambda>v. vsub v ?c) vs),
                     obj_location := mat_vec (matrix_world obj) ?c\<rparr>"
    using mesh vs ne by (simp add: set_origin_to_geometry_def Let_def bb)
  have box: "bound_box ?once = box_corners (map (\<lambda>v. vsub v ?c) vs)"
    unfolding moved using mesh by (simp add: depsgraph_object_def)
  have centred: "bbox_center ?once = (0, 0, 0)"
    unfolding bbox_center_def box by (rule shifted_box_centred [OF ne])
  have loc: "snd (matrix_world ?once) = obj_location ?once"
    by (simp add: depsgraph_object_def world_matrix_def snd_matrix_basis)
  have "set_origin_to_geometry ?once = ?once\<lparr>obj_location := snd (matrix_world ?once)\<rparr>"
    using set_origin_centred [OF centred] mesh ne unfolding moved
    by (simp add: depsgraph_object_def)
  then show ?thesis unfolding loc by simp
qed

subsection \<open>Centring an object that is centred already\<close>

text \<open>
  For an object whose cached box is centred on the local origin the vertices are left
  where they are, and the object as a whole is left as it is when the translation of
  its world matrix is its location, as it is for every evaluated object without
  parent. An evaluated object without parent that has been centred and evaluated again
  is left as it is by a further call.
\<close>

lemma centring_stable_without_parent:
  "(bbox_center obj = (0, 0, 0) \<longrightarrow>
      obj_data (set_origin_to_geometry obj) = obj_data obj \<and>
      (snd (matrix_world obj) = obj_location obj \<or> evaluated None obj \<longrightarrow>
         set_origin_to_geometry obj = obj)) \<and>
   (evaluated None obj \<longrightarrow>
      set_origin_to_geometry (depsgraph_object None (set_origin_to_geometry obj)) =
      depsgraph_object None (set_origin_to_geometry obj))"
proof (intro conjI impI)
  assume c: "bbox_center obj = (0, 0, 0)"
  show "obj_data (set_origin_to_geometry obj) = obj_data obj"
    by (simp add: set_origin_centred [OF c])
  assume "snd (matrix_world obj) = obj_location obj \<or> evaluated None obj"
  then have loc: "snd (matrix_world obj) = obj_location obj"
    using evaluated_fields(1) [of None obj] by (auto simp: world_matrix_def snd_matrix_basis)
  then show "set_origin_to_geometry obj = obj"
    by (simp add: set_origin_centred [OF c])
next
  assume "evaluated None obj"
  then show "set_origin_to_geometry (depsgraph_object None (set_origin_to_geometry obj)) =
             depsgraph_object None (set_origin_to_geometry obj)"
    by (rule set_origin_then_evaluate_fixed)
qed

text \<open>
  Two calls in a row, without an evaluation by the host in between, are not one call:
  the second reads the box and the world matrix that the first left as they were.
\<close>

lemma centring_twice_in_a_row:
  "set_origin_to_geometry (set_origin_to_geometry (box_object ''A'')) \<noteq>
   set_origin_to_geometry (box_object ''A'')"
proof
  assume "set_origin_to_geometry (set_origin_to_geometry (box_object ''A'')) =
          set_origin_to_geometry (box_object ''A'')"
  then have "obj_data (set_origin_to_geometry (set_origin_to_geometry (box_object ''A''))) =
             obj_data (set_origin_to_geometry (box_object ''A''))"
    by simp
  then show False
    by (simp add: set_origin_to_geometry_def box_object_def identity_matrix_def
        mat_vec_def vadd_def vdiv_def vsub_def vidx_def Let_def)
qed


end
